theory Spec2Isabelle
  imports Complex_Main
begin

section \<open>Dense matrices\<close>

text \<open>
  The solver works on Eigen's dynamically sized \<^verbatim>\<open>MatrixXf\<close> and \<^verbatim>\<open>VectorXf\<close>. A matrix is
  modelled by its two dimensions and its coefficients, row by row; a \<^verbatim>\<open>VectorXf\<close> is, as in
  Eigen, a matrix with one column. Coefficients are real numbers: the model is the solver in
  exact arithmetic, rounding is not modelled. Eigen asserts that the shapes of the operands
  of a sum or a product fit and has undefined behaviour otherwise; here the result of an
  operation always has the shape Eigen gives it, and the coefficients it reads outside an
  operand are unspecified, so that a statement about values needs the shapes to fit.
\<close>

datatype mat = Mat (rows: nat) (cols: nat) (coeffs: "real list list")

definition coeff :: "mat \<Rightarrow> nat \<Rightarrow> nat \<Rightarrow> real" where
  "coeff M i j = coeffs M ! i ! j"

definition mk_mat :: "nat \<Rightarrow> nat \<Rightarrow> (nat \<Rightarrow> nat \<Rightarrow> real) \<Rightarrow> mat" where
  "mk_mat r c f = Mat r c (map (\<lambda>i. map (\<lambda>j. f i j) [0..<c]) [0..<r])"

definition wf_mat :: "mat \<Rightarrow> bool" where
  "wf_mat M \<longleftrightarrow> length (coeffs M) = rows M \<and> list_all (\<lambda>r. length r = cols M) (coeffs M)"

definition has_shape :: "nat \<Rightarrow> nat \<Rightarrow> mat \<Rightarrow> bool" where
  "has_shape r c M \<longleftrightarrow> rows M = r \<and> cols M = c \<and> wf_mat M"

definition Identity :: "nat \<Rightarrow> nat \<Rightarrow> mat" where
  "Identity r c = mk_mat r c (\<lambda>i j. if i = j then 1 else 0)"

definition Zero :: "nat \<Rightarrow> nat \<Rightarrow> mat" where
  "Zero r c = mk_mat r c (\<lambda>i j. 0)"

definition transpose_mat :: "mat \<Rightarrow> mat" where
  "transpose_mat M = mk_mat (cols M) (rows M) (\<lambda>i j. coeff M j i)"

definition smult :: "real \<Rightarrow> mat \<Rightarrow> mat" where
  "smult a M = mk_mat (rows M) (cols M) (\<lambda>i j. a * coeff M i j)"

instantiation mat :: "{plus, minus, times}"
begin

definition plus_mat :: "mat \<Rightarrow> mat \<Rightarrow> mat" where
  "plus_mat M N = mk_mat (rows M) (cols M) (\<lambda>i j. coeff M i j + coeff N i j)"

definition minus_mat :: "mat \<Rightarrow> mat \<Rightarrow> mat" where
  "minus_mat M N = mk_mat (rows M) (cols M) (\<lambda>i j. coeff M i j - coeff N i j)"

definition times_mat :: "mat \<Rightarrow> mat \<Rightarrow> mat" where
  "times_mat M N = mk_mat (rows M) (cols N) (\<lambda>i j. \<Sum>k<cols M. coeff M i k * coeff N k j)"

instance ..

end

definition symmetric :: "mat \<Rightarrow> bool" where
  "symmetric M \<longleftrightarrow> transpose_mat M = M"


section \<open>Problem data\<close>

text \<open>
  The bundles exchanged with the outer loop, with the fields \<^verbatim>\<open>Solve\<close> reads:
  \<^verbatim>\<open>lin.A\<close> (named \<open>Amat\<close> here), \<^verbatim>\<open>lin.Bs[ii]\<close>, \<^verbatim>\<open>quad[ii].state.hess\<close>,
  \<^verbatim>\<open>quad[ii].state.grad\<close> and the player-indexed map \<^verbatim>\<open>quad[ii].control\<close>.
\<close>

record LinearDynamicsApproximation =
  Amat :: mat
  Bs :: "mat list"

record SingleCostApproximation =
  hess :: mat
  grad :: mat

record QuadraticCostApproximation =
  state :: SingleCostApproximation
  control :: "nat \<rightharpoonup> SingleCostApproximation"

record Strategy =
  Ps :: "mat list"
  alphas :: "mat list"

text \<open>
  Modelled from the spec: the constructor of \<^verbatim>\<open>Strategy\<close>, which \<^verbatim>\<open>Solve\<close> calls as
  \<^verbatim>\<open>Strategy(num_time_steps_, XDim, UDim(ii))\<close> and whose header is not among the sources.
  The spec's data model gives a strategy built for \<open>T\<close> time steps the pairs
  \<open>(P\<^sub>k, \<alpha>\<^sub>k)\<close> for \<open>k \<in> [0, T-2]\<close>, with \<open>P\<^sub>k\<close> the zero matrix of shape \<open>m\<^sub>i \<times> n\<close> and \<open>\<alpha>\<^sub>k\<close> a vector of
  length \<open>m\<^sub>i\<close>.
\<close>

definition new_Strategy :: "nat \<Rightarrow> nat \<Rightarrow> nat \<Rightarrow> Strategy" where
  "new_Strategy T xdim udim =
     \<lparr>Ps = replicate (T - 1) (Zero udim xdim), alphas = replicate (T - 1) (Zero udim 1)\<rparr>"

section \<open>The solver object\<close>

text \<open>
  The members of \<^verbatim>\<open>LQOpenLoopSolver\<close> that \<^verbatim>\<open>Solve\<close> uses: the horizon, the three numbers it
  asks of \<^verbatim>\<open>dynamics_\<close>, and the scratch storage, indexed by time step and then by player.
  An \<^verbatim>\<open>Eigen::LLT\<close> or QR object is represented by the matrix handed to its \<^verbatim>\<open>compute\<close>;
  its \<^verbatim>\<open>solve\<close> is a parameter of the model (type \<open>linear_solver\<close>: the factorised matrix,
  then the right-hand side), since Eigen is not part of the repository.

  The storage is allocated by the constructor, whose source is absent; the vectors are what
  the solver object holds when \<^verbatim>\<open>Solve\<close> is entered. A write through \<^verbatim>\<open>operator[]\<close> beyond
  the end of a \<^verbatim>\<open>std::vector\<close> is undefined behaviour in C++ and leaves the list unchanged
  here, a read there is unspecified here: statements about the values \<^verbatim>\<open>Solve\<close> stores assume
  the capacity \<open>T \<times> N\<close> which the spec gives the workspace. \<^verbatim>\<open>num_time_steps_\<close> is taken to be
  at least \<open>1\<close> (an unsigned \<open>0 - 1\<close> would wrap in the bound of the forward loop).
\<close>

type_synonym linear_solver = "mat \<Rightarrow> mat \<Rightarrow> mat"

datatype error = CheckFailed

record LQOpenLoopSolver =
  num_time_steps :: nat
  NumPlayers :: nat
  XDim :: nat
  UDim :: "nat \<Rightarrow> nat"
  ms :: "mat list list"
  Ms :: "mat list list"
  chol_Rs :: "mat list list"
  warped_Bs :: "mat list list"
  warped_rs :: "mat list list"
  capital_lambdas :: "mat list"
  qr_capital_lambdas :: "mat list"

text \<open>The assignment \<^verbatim>\<open>xss[k][i] = v\<close>.\<close>

definition set2 :: "'a list list \<Rightarrow> nat \<Rightarrow> nat \<Rightarrow> 'a \<Rightarrow> 'a list list" where
  "set2 xss k i v = xss[k := (xss ! k)[i := v]]"

text \<open>A loop over a list of indices whose body may hit a failing \<^verbatim>\<open>CHECK\<close>, which aborts.\<close>

fun foldE :: "('a \<Rightarrow> 's \<Rightarrow> error + 's) \<Rightarrow> 'a list \<Rightarrow> 's \<Rightarrow> error + 's" where
  "foldE f [] s = Inr s"
| "foldE f (x # xs) s = (case f x s of Inl e \<Rightarrow> Inl e | Inr s' \<Rightarrow> foldE f xs s')"

section \<open>Solve\<close>

text \<open>Lines 89-93: the terminal value terms, written to \<^verbatim>\<open>ms_.back()\<close> and \<^verbatim>\<open>Ms_.back()\<close>.\<close>

definition init_player ::
  "QuadraticCostApproximation list list \<Rightarrow> nat \<Rightarrow> LQOpenLoopSolver \<Rightarrow> LQOpenLoopSolver" where
  "init_player quadraticization ii s =
     (let s1 = s\<lparr>ms := set2 (ms s) (length (ms s) - 1) ii
                        (grad (state (last quadraticization ! ii)))\<rparr>
      in s1\<lparr>Ms := set2 (Ms s1) (length (Ms s1) - 1) ii
                        (hess (state (last quadraticization ! ii)))\<rparr>)"

definition init_terminal ::
  "QuadraticCostApproximation list list \<Rightarrow> LQOpenLoopSolver \<Rightarrow> LQOpenLoopSolver" where
  "init_terminal quadraticization s = fold (init_player quadraticization) [0..<NumPlayers s] s"

text \<open>
  Lines 107-115: the body of the first loop over the players at time step \<open>kk\<close>. The
  \<^verbatim>\<open>CHECK\<close> on the iterator aborts when player \<open>ii\<close>'s cost has no entry for its own control.
\<close>

definition lambda_player ::
  "linear_solver \<Rightarrow> LinearDynamicsApproximation \<Rightarrow> QuadraticCostApproximation list \<Rightarrow> nat
     \<Rightarrow> nat \<Rightarrow> LQOpenLoopSolver \<Rightarrow> error + LQOpenLoopSolver" where
  "lambda_player llt lin quad kk ii s =
     (case control (quad ! ii) ii of
        None \<Rightarrow> Inl CheckFailed
      | Some control_iter \<Rightarrow>
          let s1 = s\<lparr>chol_Rs := set2 (chol_Rs s) kk ii (hess control_iter)\<rparr>;
              s2 = s1\<lparr>warped_Bs := set2 (warped_Bs s1) kk ii
                        (llt (chol_Rs s1 ! kk ! ii) (transpose_mat (Bs lin ! ii)))\<rparr>;
              s3 = s2\<lparr>warped_rs := set2 (warped_rs s2) kk ii
                        (llt (chol_Rs s2 ! kk ! ii) (grad control_iter))\<rparr>
          in Inr (s3\<lparr>capital_lambdas := (capital_lambdas s3)[kk :=
                        capital_lambdas s3 ! kk
                          + Bs lin ! ii * warped_Bs s3 ! kk ! ii * Ms s3 ! (kk + 1) ! ii]\<rparr>))"

text \<open>Lines 121-138: the body of the second loop over the players at time step \<open>kk\<close>.\<close>

definition value_player ::
  "linear_solver \<Rightarrow> LinearDynamicsApproximation \<Rightarrow> QuadraticCostApproximation list
     \<Rightarrow> QuadraticCostApproximation list \<Rightarrow> nat \<Rightarrow> nat \<Rightarrow> LQOpenLoopSolver \<Rightarrow> LQOpenLoopSolver" where
  "value_player qr lin quad next_quad kk ii s =
     (let s1 = s\<lparr>Ms := set2 (Ms s) kk ii
                   (hess (state (quad ! ii))
                      + transpose_mat (Amat lin) * Ms s ! (kk + 1) ! ii
                          * qr (qr_capital_lambdas s ! kk) (Amat lin))\<rparr>;
          intermediary =
            fold (\<lambda>jj v. v - Bs lin ! jj * (warped_Bs s1 ! kk ! jj * ms s1 ! (kk + 1) ! ii
                                              + warped_rs s1 ! kk ! jj))
              [0..<NumPlayers s1] (Zero (XDim s1) 1)
      in s1\<lparr>ms := set2 (ms s1) kk ii
                   (grad (state (next_quad ! ii))
                      + transpose_mat (Amat lin)
                          * (ms s1 ! (kk + 1) ! ii
                               + Ms s1 ! (kk + 1) ! ii
                                   * qr (qr_capital_lambdas s1 ! kk) intermediary))\<rparr>)"

text \<open>Lines 99-138: one iteration of the backward loop.\<close>

definition backward_step ::
  "linear_solver \<Rightarrow> linear_solver \<Rightarrow> LinearDynamicsApproximation list
     \<Rightarrow> QuadraticCostApproximation list list \<Rightarrow> nat \<Rightarrow> LQOpenLoopSolver
     \<Rightarrow> error + LQOpenLoopSolver" where
  "backward_step llt qr linearization quadraticization kk s =
     (let lin = linearization ! kk;
          quad = quadraticization ! kk;
          next_quad = quadraticization ! (kk + 1);
          s1 = s\<lparr>capital_lambdas := (capital_lambdas s)[kk := Identity (XDim s) (XDim s)]\<rparr>
      in case foldE (lambda_player llt lin quad kk) [0..<NumPlayers s1] s1 of
           Inl e \<Rightarrow> Inl e
         | Inr s2 \<Rightarrow>
             let s3 = s2\<lparr>qr_capital_lambdas :=
                          (qr_capital_lambdas s2)[kk := capital_lambdas s2 ! kk]\<rparr>
             in Inr (fold (value_player qr lin quad next_quad kk) [0..<NumPlayers s3] s3))"

text \<open>
  Line 98: \<^verbatim>\<open>for (int kk = num_time_steps_ - 2; kk >= 0; kk--)\<close>. The argument counts the
  iterations left: \<open>Suc kk\<close> runs the body at \<open>kk\<close> and goes on below it.
\<close>

fun backward_loop ::
  "linear_solver \<Rightarrow> linear_solver \<Rightarrow> LinearDynamicsApproximation list
     \<Rightarrow> QuadraticCostApproximation list list \<Rightarrow> nat \<Rightarrow> LQOpenLoopSolver
     \<Rightarrow> error + LQOpenLoopSolver" where
  "backward_loop llt qr linearization quadraticization 0 s = Inr s"
| "backward_loop llt qr linearization quadraticization (Suc kk) s =
     (case backward_step llt qr linearization quadraticization kk s of
        Inl e \<Rightarrow> Inl e
      | Inr s' \<Rightarrow> backward_loop llt qr linearization quadraticization kk s')"

text \<open>Lines 144-174: the forward loop; its variables are the strategies and the two states.\<close>

record forward_vars =
  strategies :: "Strategy list"
  x_star :: mat
  last_x_star :: mat

definition alpha_player :: "LQOpenLoopSolver \<Rightarrow> nat \<Rightarrow> mat \<Rightarrow> nat \<Rightarrow> Strategy list \<Rightarrow> Strategy list" where
  "alpha_player s kk x ii strats =
     strats[ii := (strats ! ii)\<lparr>alphas := (alphas (strats ! ii))[kk :=
        warped_Bs s ! kk ! ii * (Ms s ! (kk + 1) ! ii * x + ms s ! (kk + 1) ! ii)
          + warped_rs s ! kk ! ii]\<rparr>]"

definition forward_step ::
  "linear_solver \<Rightarrow> LinearDynamicsApproximation list \<Rightarrow> LQOpenLoopSolver \<Rightarrow> nat
     \<Rightarrow> forward_vars \<Rightarrow> forward_vars" where
  "forward_step qr linearization s kk v =
     (let lin = linearization ! kk;
          intermediary =
            fold (\<lambda>ii w. w - Bs lin ! ii * (warped_Bs s ! kk ! ii * ms s ! (kk + 1) ! ii
                                              + warped_rs s ! kk ! ii))
              [0..<NumPlayers s] (Amat lin * x_star v);
          v1 = v\<lparr>last_x_star := x_star v\<rparr>;
          v2 = v1\<lparr>x_star := qr (qr_capital_lambdas s ! kk) intermediary\<rparr>
      in v2\<lparr>strategies := fold (alpha_player s kk (x_star v2)) [0..<NumPlayers s] (strategies v2)\<rparr>)"

definition forward_loop ::
  "linear_solver \<Rightarrow> LinearDynamicsApproximation list \<Rightarrow> LQOpenLoopSolver \<Rightarrow> nat
     \<Rightarrow> forward_vars \<Rightarrow> forward_vars" where
  "forward_loop qr linearization s n v = fold (forward_step qr linearization s) [0..<n] v"

text \<open>
  \<^verbatim>\<open>LQOpenLoopSolver::Solve\<close>. The result is the list of strategies together with the solver
  object as the call leaves it; a failing \<^verbatim>\<open>CHECK\<close> aborts the program (\<open>Inl CheckFailed\<close>).
\<close>

definition Solve ::
  "linear_solver \<Rightarrow> linear_solver \<Rightarrow> LQOpenLoopSolver \<Rightarrow> LinearDynamicsApproximation list
     \<Rightarrow> QuadraticCostApproximation list list \<Rightarrow> mat
     \<Rightarrow> error + Strategy list \<times> LQOpenLoopSolver" where
  "Solve llt qr s linearization quadraticization x0 =
     (if length linearization \<noteq> num_time_steps s then Inl CheckFailed
      else if length quadraticization \<noteq> num_time_steps s then Inl CheckFailed
      else
        let strats = map (\<lambda>ii. new_Strategy (num_time_steps s) (XDim s) (UDim s ii))
                       [0..<NumPlayers s];
            s1 = init_terminal quadraticization s
        in case backward_loop llt qr linearization quadraticization (num_time_steps s - 1) s1 of
             Inl e \<Rightarrow> Inl e
           | Inr s2 \<Rightarrow>
               Inr (strategies (forward_loop qr linearization s2 (num_time_steps s - 1)
                      \<lparr>strategies = strats, x_star = x0, last_x_star = x0\<rparr>), s2))"

section \<open>Notions used in the statements\<close>

text \<open>
  The numbers fixed at construction, and the sizes of the scratch storage. The storage is
  well-sized when every time-indexed vector has \<open>T\<close> entries and every player-indexed one
  \<open>N\<close>, the capacity the spec gives the workspace.
\<close>

definition dims :: "LQOpenLoopSolver \<Rightarrow> nat \<times> nat \<times> nat \<times> (nat \<Rightarrow> nat)" where
  "dims s = (num_time_steps s, NumPlayers s, XDim s, UDim s)"

definition capacity ::
  "LQOpenLoopSolver \<Rightarrow> nat list \<times> nat list \<times> nat list \<times> nat list \<times> nat list \<times> nat \<times> nat" where
  "capacity s = (map length (ms s), map length (Ms s), map length (chol_Rs s),
     map length (warped_Bs s), map length (warped_rs s),
     length (capital_lambdas s), length (qr_capital_lambdas s))"

definition workspace_ok :: "LQOpenLoopSolver \<Rightarrow> bool" where
  "workspace_ok s \<longleftrightarrow>
     (let T = num_time_steps s; N = NumPlayers s
      in capacity s = (replicate T N, replicate T N, replicate T N, replicate T N,
                       replicate T N, T, T))"

text \<open>Player \<open>i\<close>'s own control term \<^verbatim>\<open>quad[i].control.find(i)->second\<close>, where it exists.\<close>

definition own_control :: "QuadraticCostApproximation list \<Rightarrow> nat \<Rightarrow> SingleCostApproximation" where
  "own_control quad i = the (control (quad ! i) i)"

text \<open>Everything the workspace holds for time step \<open>k\<close>.\<close>

definition rows_at ::
  "LQOpenLoopSolver \<Rightarrow> nat
     \<Rightarrow> mat list \<times> mat list \<times> mat list \<times> mat list \<times> mat list \<times> mat \<times> mat" where
  "rows_at s k = (ms s ! k, Ms s ! k, chol_Rs s ! k, warped_Bs s ! k, warped_rs s ! k,
     capital_lambdas s ! k, qr_capital_lambdas s ! k)"

text \<open>
  What one iteration of the backward loop leaves in the workspace at time step \<open>k\<close>, in
  terms of what the workspace holds at \<open>k + 1\<close>.
\<close>

definition backward_relation ::
  "linear_solver \<Rightarrow> linear_solver \<Rightarrow> LinearDynamicsApproximation list
     \<Rightarrow> QuadraticCostApproximation list list \<Rightarrow> LQOpenLoopSolver \<Rightarrow> nat \<Rightarrow> bool" where
  "backward_relation llt qr linearization quadraticization s k \<longleftrightarrow>
     (let lin = linearization ! k; quad = quadraticization ! k;
          next_quad = quadraticization ! (k + 1); N = NumPlayers s; n = XDim s
      in (\<forall>i<N. control (quad ! i) i \<noteq> None
            \<and> chol_Rs s ! k ! i = hess (own_control quad i)
            \<and> warped_Bs s ! k ! i = llt (hess (own_control quad i)) (transpose_mat (Bs lin ! i))
            \<and> warped_rs s ! k ! i = llt (hess (own_control quad i)) (grad (own_control quad i)))
         \<and> capital_lambdas s ! k = foldl (+) (Identity n n)
              (map (\<lambda>i. Bs lin ! i * warped_Bs s ! k ! i * Ms s ! (k + 1) ! i) [0..<N])
         \<and> qr_capital_lambdas s ! k = capital_lambdas s ! k
         \<and> (\<forall>i<N. Ms s ! k ! i = hess (state (quad ! i))
                      + transpose_mat (Amat lin) * Ms s ! (k + 1) ! i
                          * qr (capital_lambdas s ! k) (Amat lin)
               \<and> ms s ! k ! i = grad (state (next_quad ! i))
                      + transpose_mat (Amat lin)
                          * (ms s ! (k + 1) ! i
                               + Ms s ! (k + 1) ! i
                                   * qr (capital_lambdas s ! k)
                                       (fold (\<lambda>jj v. v - Bs lin ! jj
                                                * (warped_Bs s ! k ! jj * ms s ! (k + 1) ! i
                                                     + warped_rs s ! k ! jj))
                                          [0..<N] (Zero n 1)))))"

text \<open>
  Two cost bundles agree on the terms of the agents' own costs when, at every time step and
  for every agent \<open>i < N\<close>, they have the same state term and the same diagonal control entry
  \<open>control[i]\<close>; the other entries of the control maps are free.
\<close>

definition agree_on_own_terms ::
  "nat \<Rightarrow> QuadraticCostApproximation list list \<Rightarrow> QuadraticCostApproximation list list \<Rightarrow> bool" where
  "agree_on_own_terms N q q' \<longleftrightarrow>
     length q = length q'
     \<and> (\<forall>k<length q. \<forall>i<N. state (q ! k ! i) = state (q' ! k ! i)
                                \<and> control (q ! k ! i) i = control (q' ! k ! i) i)"

text \<open>
  Two cost bundles differ at most in the state gradients of the initial time step: every
  later step is the same, and at step \<open>0\<close> the state Hessians and the control maps are.
\<close>

definition differ_in_initial_state_grad ::
  "nat \<Rightarrow> QuadraticCostApproximation list list \<Rightarrow> QuadraticCostApproximation list list \<Rightarrow> bool" where
  "differ_in_initial_state_grad N q q' \<longleftrightarrow>
     length q = length q'
     \<and> (\<forall>k<length q. 0 < k \<longrightarrow> q ! k = q' ! k)
     \<and> (\<forall>i<N. hess (state (q ! 0 ! i)) = hess (state (q' ! 0 ! i))
                \<and> control (q ! 0 ! i) = control (q' ! 0 ! i))"

text \<open>
  The forward loop: the value of \<^verbatim>\<open>x_star\<close> after \<open>k\<close> iterations, the vector
  \<^verbatim>\<open>intermediary\<close> of line 151-155, and the feedforward term of line 163-165.
\<close>

definition x_trajectory ::
  "linear_solver \<Rightarrow> LinearDynamicsApproximation list \<Rightarrow> LQOpenLoopSolver \<Rightarrow> mat \<Rightarrow> nat \<Rightarrow> mat" where
  "x_trajectory qr linearization s x0 k =
     x_star (forward_loop qr linearization s k \<lparr>strategies = [], x_star = x0, last_x_star = x0\<rparr>)"

definition forward_intermediary ::
  "LinearDynamicsApproximation list \<Rightarrow> LQOpenLoopSolver \<Rightarrow> nat \<Rightarrow> mat \<Rightarrow> mat" where
  "forward_intermediary linearization s k x =
     fold (\<lambda>i w. w - Bs (linearization ! k) ! i
                     * (warped_Bs s ! k ! i * ms s ! (k + 1) ! i + warped_rs s ! k ! i))
       [0..<NumPlayers s] (Amat (linearization ! k) * x)"

definition alpha_value :: "LQOpenLoopSolver \<Rightarrow> nat \<Rightarrow> nat \<Rightarrow> mat \<Rightarrow> mat" where
  "alpha_value s k i x =
     warped_Bs s ! k ! i * (Ms s ! (k + 1) ! i * x + ms s ! (k + 1) ! i) + warped_rs s ! k ! i"

text \<open>
  Eigen's \<^verbatim>\<open>solve\<close> returns a matrix with as many rows as the factorised matrix has columns
  and as many columns as the right-hand side.
\<close>

definition solver_shape :: "linear_solver \<Rightarrow> bool" where
  "solver_shape f \<longleftrightarrow> (\<forall>M X. rows (f M X) = cols M \<and> cols (f M X) = cols X)"

text \<open>
  The dimensions the data model declares: \<open>A\<^sub>k\<close> is \<open>n \<times> n\<close>, \<open>B\<^sub>i\<^sub>,\<^sub>k\<close> is \<open>n \<times> m\<^sub>i\<close>, \<open>Q\<^sub>i\<^sub>,\<^sub>k\<close> is
  \<open>n \<times> n\<close>, \<open>l\<^sub>i\<^sub>,\<^sub>k\<close> has length \<open>n\<close> and, before the terminal step, \<open>R\<^sub>i\<^sub>i\<^sub>,\<^sub>k\<close> is \<open>m\<^sub>i \<times> m\<^sub>i\<close> and
  \<open>r\<^sub>i\<^sub>i\<^sub>,\<^sub>k\<close> has length \<open>m\<^sub>i\<close>.
\<close>

definition well_shaped ::
  "LQOpenLoopSolver \<Rightarrow> LinearDynamicsApproximation list \<Rightarrow> QuadraticCostApproximation list list
     \<Rightarrow> bool" where
  "well_shaped s linearization quadraticization \<longleftrightarrow>
     (\<forall>k<num_time_steps s.
        has_shape (XDim s) (XDim s) (Amat (linearization ! k))
        \<and> (\<forall>i<NumPlayers s.
              has_shape (XDim s) (UDim s i) (Bs (linearization ! k) ! i)
            \<and> has_shape (XDim s) (XDim s) (hess (state (quadraticization ! k ! i)))
            \<and> has_shape (XDim s) 1 (grad (state (quadraticization ! k ! i)))
            \<and> (k + 1 < num_time_steps s \<longrightarrow>
                  has_shape (UDim s i) (UDim s i) (hess (own_control (quadraticization ! k) i))
                \<and> has_shape (UDim s i) 1 (grad (own_control (quadraticization ! k) i)))))"

text \<open>
  A library solver is exact at a matrix \<open>M\<close> when, for every right-hand side \<open>Y\<close> with as
  many rows as \<open>M\<close>, it returns a solution of \<open>M \<cdot> X = Y\<close> of the fitting shape, and \<open>M\<close> has
  at most one solution for a right-hand side: what a factorisation of an invertible matrix
  computes in exact arithmetic.
\<close>

definition solves_exactly :: "linear_solver \<Rightarrow> mat \<Rightarrow> bool" where
  "solves_exactly f M \<longleftrightarrow>
     (\<forall>Y. wf_mat Y \<and> rows Y = rows M
          \<longrightarrow> has_shape (cols M) (cols Y) (f M Y) \<and> M * f M Y = Y)
     \<and> (\<forall>U V. wf_mat U \<and> wf_mat V \<and> rows U = cols M \<and> rows V = cols M \<and> cols U = cols V
               \<and> M * U = M * V \<longrightarrow> U = V)"

section \<open>Concrete problems\<close>

text \<open>
  For the concrete runs below the two library solvers are instantiated by an exact solver
  for systems with one or two unknowns (the inverse by the adjugate).
\<close>

definition small_inverse :: "mat \<Rightarrow> mat" where
  "small_inverse M = mk_mat (cols M) (rows M) (\<lambda>i j.
     if rows M = 1 then 1 / coeff M 0 0
     else (if i = j then coeff M (1 - i) (1 - j) else - coeff M i j)
            / (coeff M 0 0 * coeff M 1 1 - coeff M 0 1 * coeff M 1 0))"

definition small_solve :: linear_solver where
  "small_solve M X = small_inverse M * X"

text \<open>
  Modelled from the spec: the solver object as its constructor leaves it (the constructor's
  source is absent). The spec allocates the workspace once, with capacity \<open>T \<times> N\<close>; the
  matrices in it are taken default-constructed, that is empty.
\<close>

definition fresh_solver :: "nat \<Rightarrow> nat \<Rightarrow> nat \<Rightarrow> (nat \<Rightarrow> nat) \<Rightarrow> LQOpenLoopSolver" where
  "fresh_solver T N n m =
     \<lparr>num_time_steps = T, NumPlayers = N, XDim = n, UDim = m,
      ms = replicate T (replicate N (Mat 0 0 [])),
      Ms = replicate T (replicate N (Mat 0 0 [])),
      chol_Rs = replicate T (replicate N (Mat 0 0 [])),
      warped_Bs = replicate T (replicate N (Mat 0 0 [])),
      warped_rs = replicate T (replicate N (Mat 0 0 [])),
      capital_lambdas = replicate T (Mat 0 0 []),
      qr_capital_lambdas = replicate T (Mat 0 0 [])\<rparr>"

definition scalar :: "real \<Rightarrow> mat" where
  "scalar a = Mat 1 1 [[a]]"

definition scalar_cost :: "real \<Rightarrow> real \<Rightarrow> real \<Rightarrow> real \<Rightarrow> QuadraticCostApproximation" where
  "scalar_cost Q l R r =
     \<lparr>state = \<lparr>hess = scalar Q, grad = scalar l\<rparr>,
      control = [0 \<mapsto> \<lparr>hess = scalar R, grad = scalar r\<rparr>]\<rparr>"

definition scalar_lin :: "real \<Rightarrow> real \<Rightarrow> LinearDynamicsApproximation" where
  "scalar_lin a b = \<lparr>Amat = scalar a, Bs = [scalar b]\<rparr>"

text \<open>
  Scenario S1 of the spec: one agent, one step, scalars, \<open>A = B = 1\<close>, \<open>Q\<^sub>0 = Q\<^sub>1 = 1\<close>,
  \<open>R = 1\<close>, \<open>l = r = 0\<close>, started at \<open>x0 = 1\<close>; and the solver object it leaves.
\<close>

definition S1_solver :: LQOpenLoopSolver where
  "S1_solver = fresh_solver 2 1 1 (\<lambda>i. 1)"

definition S1_lin :: "LinearDynamicsApproximation list" where
  "S1_lin = [scalar_lin 1 1, scalar_lin 1 1]"

definition S1_quad :: "QuadraticCostApproximation list list" where
  "S1_quad = [[scalar_cost 1 0 1 0], [scalar_cost 1 0 1 0]]"

definition S1_final :: LQOpenLoopSolver where
  "S1_final = S1_solver\<lparr>
      ms := [[scalar 0], [scalar 0]],
      Ms := [[scalar (3 / 2)], [scalar 1]],
      chol_Rs := [[scalar 1], [Mat 0 0 []]],
      warped_Bs := [[scalar 1], [Mat 0 0 []]],
      warped_rs := [[scalar 0], [Mat 0 0 []]],
      capital_lambdas := [scalar 2, Mat 0 0 []],
      qr_capital_lambdas := [scalar 2, Mat 0 0 []]\<rparr>"

text \<open>
  Variants of the costs of S1: with a second, unused cost per time step; with another state
  gradient at the initial step.
\<close>

definition S1_quad_wide :: "QuadraticCostApproximation list list" where
  "S1_quad_wide = [[scalar_cost 1 0 1 0, scalar_cost 4 5 6 7], [scalar_cost 1 0 1 0, scalar_cost 4 5 6 7]]"

definition S1_quad_grad :: "QuadraticCostApproximation list list" where
  "S1_quad_grad = [[scalar_cost 1 9 1 0], [scalar_cost 1 0 1 0]]"

text \<open>
  A game of two agents with one control each on a state of dimension two, over one step:
  \<open>A = I\<close>, agent \<open>i\<close> drives coordinate \<open>i\<close>, \<open>R\<^sub>i\<^sub>i = 1\<close>, the state Hessians are the symmetric
  matrices \<open>Q\<^sub>0 = [[1, 1], [1, 1]]\<close> and \<open>Q\<^sub>1 = [[1, 0], [0, 0]]\<close> at both time steps, all
  gradients vanish; and what \<^verbatim>\<open>Solve\<close> makes of it from \<open>x0 = (1, 1)\<close>.
\<close>

definition own_cost :: "nat \<Rightarrow> mat \<Rightarrow> mat \<Rightarrow> mat \<Rightarrow> mat \<Rightarrow> QuadraticCostApproximation" where
  "own_cost i Q l R r =
     \<lparr>state = \<lparr>hess = Q, grad = l\<rparr>, control = [i \<mapsto> \<lparr>hess = R, grad = r\<rparr>]\<rparr>"

definition G_solver :: LQOpenLoopSolver where
  "G_solver = fresh_solver 2 2 2 (\<lambda>i. 1)"

definition G_lin :: "LinearDynamicsApproximation list" where
  "G_lin = replicate 2 \<lparr>Amat = Identity 2 2, Bs = [Mat 2 1 [[1], [0]], Mat 2 1 [[0], [1]]]\<rparr>"

definition G_quad :: "QuadraticCostApproximation list list" where
  "G_quad = replicate 2
     [own_cost 0 (Mat 2 2 [[1, 1], [1, 1]]) (Zero 2 1) (scalar 1) (scalar 0),
      own_cost 1 (Mat 2 2 [[1, 0], [0, 0]]) (Zero 2 1) (scalar 1) (scalar 0)]"

definition G_x0 :: mat where
  "G_x0 = Mat 2 1 [[1], [1]]"

definition G_final :: LQOpenLoopSolver where
  "G_final = G_solver\<lparr>
      ms := [[Zero 2 1, Zero 2 1], [Zero 2 1, Zero 2 1]],
      Ms := [[Mat 2 2 [[3 / 2, 3 / 2], [3 / 2, 3 / 2]], Mat 2 2 [[3 / 2, - (1 / 2)], [0, 0]]],
             [Mat 2 2 [[1, 1], [1, 1]], Mat 2 2 [[1, 0], [0, 0]]]],
      chol_Rs := [[scalar 1, scalar 1], [Mat 0 0 [], Mat 0 0 []]],
      warped_Bs := [[Mat 1 2 [[1, 0]], Mat 1 2 [[0, 1]]], [Mat 0 0 [], Mat 0 0 []]],
      warped_rs := [[scalar 0, scalar 0], [Mat 0 0 [], Mat 0 0 []]],
      capital_lambdas := [Mat 2 2 [[2, 1], [0, 1]], Mat 0 0 []],
      qr_capital_lambdas := [Mat 2 2 [[2, 1], [0, 1]], Mat 0 0 []]\<rparr>"

definition G_strategies :: "Strategy list" where
  "G_strategies = [\<lparr>Ps = [Zero 1 2], alphas = [scalar 1]\<rparr>, \<lparr>Ps = [Zero 1 2], alphas = [scalar 0]\<rparr>]"

text \<open>The costs of the two-agent game with cross terms \<open>control[j]\<close>, \<open>j \<noteq> i\<close>, added.\<close>

definition G_quad_cross :: "QuadraticCostApproximation list list" where
  "G_quad_cross = replicate 2
     [\<lparr>state = \<lparr>hess = Mat 2 2 [[1, 1], [1, 1]], grad = Zero 2 1\<rparr>,
       control = [0 \<mapsto> \<lparr>hess = scalar 1, grad = scalar 0\<rparr>,
                  1 \<mapsto> \<lparr>hess = scalar 5, grad = scalar 7\<rparr>]\<rparr>,
      \<lparr>state = \<lparr>hess = Mat 2 2 [[1, 0], [0, 0]], grad = Zero 2 1\<rparr>,
       control = [0 \<mapsto> \<lparr>hess = scalar 3, grad = scalar 4\<rparr>,
                  1 \<mapsto> \<lparr>hess = scalar 1, grad = scalar 0\<rparr>]\<rparr>]"

text \<open>
  Scenario S4 of the spec: the data of S1 with no state cost and a linear control cost
  \<open>r = 1\<close> at the initial step; and the solver object \<^verbatim>\<open>Solve\<close> leaves.
\<close>

definition S4_quad :: "QuadraticCostApproximation list list" where
  "S4_quad = [[scalar_cost 0 0 1 1], [scalar_cost 0 0 1 0]]"

definition S4_final :: LQOpenLoopSolver where
  "S4_final = S1_solver\<lparr>
      ms := [[scalar 0], [scalar 0]],
      Ms := [[scalar 0], [scalar 0]],
      chol_Rs := [[scalar 1], [Mat 0 0 []]],
      warped_Bs := [[scalar 1], [Mat 0 0 []]],
      warped_rs := [[scalar 1], [Mat 0 0 []]],
      capital_lambdas := [scalar 1, Mat 0 0 []],
      qr_capital_lambdas := [scalar 1, Mat 0 0 []]\<rparr>"

text \<open>
  One agent with one control on a state of dimension two, over one step: a double integrator
  \<open>A = [[1, 1], [0, 1]]\<close>, \<open>B = (0, 1)\<close>, \<open>Q = [[2, 1], [1, 1]]\<close>, \<open>l = (1, 0)\<close>, \<open>R = 1\<close>, \<open>r = 1\<close>;
  the solver object \<^verbatim>\<open>Solve\<close> leaves, and the strategy with feedforward term \<open>u\<close>.
\<close>

definition H_solver :: LQOpenLoopSolver where
  "H_solver = fresh_solver 2 1 2 (\<lambda>i. 1)"

definition H_lin :: "LinearDynamicsApproximation list" where
  "H_lin = replicate 2 \<lparr>Amat = Mat 2 2 [[1, 1], [0, 1]], Bs = [Mat 2 1 [[0], [1]]]\<rparr>"

definition H_quad :: "QuadraticCostApproximation list list" where
  "H_quad = replicate 2
     [own_cost 0 (Mat 2 2 [[2, 1], [1, 1]]) (Mat 2 1 [[1], [0]]) (scalar 1) (scalar 1)]"

definition H_final :: LQOpenLoopSolver where
  "H_final = H_solver\<lparr>
      ms := [[Mat 2 1 [[3 / 2], [0]]], [Mat 2 1 [[1], [0]]]],
      Ms := [[Mat 2 2 [[7 / 2, 3], [3, 4]]], [Mat 2 2 [[2, 1], [1, 1]]]],
      chol_Rs := [[scalar 1], [Mat 0 0 []]],
      warped_Bs := [[Mat 1 2 [[0, 1]]], [Mat 0 0 []]],
      warped_rs := [[scalar 1], [Mat 0 0 []]],
      capital_lambdas := [Mat 2 2 [[1, 0], [1, 2]], Mat 0 0 []],
      qr_capital_lambdas := [Mat 2 2 [[1, 0], [1, 2]], Mat 0 0 []]\<rparr>"

definition H_strategies :: "real \<Rightarrow> Strategy list" where
  "H_strategies u = [\<lparr>Ps = [Zero 1 2], alphas = [scalar u]\<rparr>]"

section \<open>Auxiliary facts\<close>


subsection \<open>Indexed writes and loops\<close>

lemma map_length_set2: "map length (set2 xss k i v) = map length xss"
proof (cases "k < length xss")
  case True
  then show ?thesis by (simp add: set2_def map_update list_update_same_conv)
next
  case False
  then show ?thesis by (simp add: set2_def list_update_beyond not_less)
qed

lemma set2_other: "k' \<noteq> k \<Longrightarrow> set2 xss k i v ! k' = xss ! k'"
  by (simp add: set2_def)

lemma set2_hit: "k < length xss \<Longrightarrow> i < length (xss ! k) \<Longrightarrow> set2 xss k i v ! k ! i = v"
  by (simp add: set2_def)

lemma set2_miss: "i' \<noteq> i \<Longrightarrow> set2 xss k i v ! k' ! i' = xss ! k' ! i'"
  by (cases "k' = k"; cases "k < length xss") (simp_all add: set2_def list_update_beyond not_less)

lemma foldE_append:
  "foldE f (xs @ ys) s = (case foldE f xs s of Inl e \<Rightarrow> Inl e | Inr s' \<Rightarrow> foldE f ys s')"
  by (induction xs arbitrary: s) (auto split: sum.splits)

lemma foldE_cong:
  "(\<And>x s. x \<in> set xs \<Longrightarrow> f x s = g x s) \<Longrightarrow> foldE f xs s = foldE g xs s"
  by (induction xs arbitrary: s) (auto split: sum.splits)

lemma fold_upt_invariant:
  assumes "P 0 s" and "\<And>i t. i < n \<Longrightarrow> P i t \<Longrightarrow> P (Suc i) (f i t)"
  shows "P n (fold f [0..<n] s)"
  using assms(2)
proof (induction n)
  case 0
  show ?case using assms(1) by simp
next
  case (Suc n)
  have "P n (fold f [0..<n] s)" using Suc by simp
  then show ?case using Suc.prems[of n] by simp
qed

lemma foldE_upt_invariant:
  assumes "foldE f [0..<n] s = Inr s'" and "P 0 s"
    and "\<And>i t t'. i < n \<Longrightarrow> P i t \<Longrightarrow> f i t = Inr t' \<Longrightarrow> P (Suc i) t'"
  shows "P n s'"
  using assms(1,3)
proof (induction n arbitrary: s')
  case 0
  then show ?case using assms(2) by simp
next
  case (Suc n)
  from Suc.prems(1) obtain t where t: "foldE f [0..<n] s = Inr t" and t': "f n t = Inr s'"
    by (auto simp: foldE_append split: sum.splits)
  have "P n t" using Suc.IH[OF t] Suc.prems(2) by simp
  then show ?case using Suc.prems(2)[of n t s'] t' by simp
qed

subsection \<open>The workspace through the backward pass\<close>

text \<open>
  Each loop keeps the sizes of the workspace and writes only the slots of its own time step;
  what it writes there is read off its body.
\<close>

lemma workspace_okD:
  assumes "workspace_ok s"
  shows "length (ms s) = num_time_steps s" "length (Ms s) = num_time_steps s"
    "length (chol_Rs s) = num_time_steps s" "length (warped_Bs s) = num_time_steps s"
    "length (warped_rs s) = num_time_steps s" "length (capital_lambdas s) = num_time_steps s"
    "length (qr_capital_lambdas s) = num_time_steps s"
    "\<And>k. k < num_time_steps s \<Longrightarrow> length (ms s ! k) = NumPlayers s"
    "\<And>k. k < num_time_steps s \<Longrightarrow> length (Ms s ! k) = NumPlayers s"
    "\<And>k. k < num_time_steps s \<Longrightarrow> length (chol_Rs s ! k) = NumPlayers s"
    "\<And>k. k < num_time_steps s \<Longrightarrow> length (warped_Bs s ! k) = NumPlayers s"
    "\<And>k. k < num_time_steps s \<Longrightarrow> length (warped_rs s ! k) = NumPlayers s"
proof -
  have m: "map length xss = replicate T N \<Longrightarrow> length xss = T \<and> (\<forall>k<T. length (xss ! k) = N)"
    for xss :: "mat list list" and T N
    by (metis length_map length_replicate nth_map nth_replicate)
  from assms have c: "map length (ms s) = replicate (num_time_steps s) (NumPlayers s)"
    "map length (Ms s) = replicate (num_time_steps s) (NumPlayers s)"
    "map length (chol_Rs s) = replicate (num_time_steps s) (NumPlayers s)"
    "map length (warped_Bs s) = replicate (num_time_steps s) (NumPlayers s)"
    "map length (warped_rs s) = replicate (num_time_steps s) (NumPlayers s)"
    "length (capital_lambdas s) = num_time_steps s"
    "length (qr_capital_lambdas s) = num_time_steps s"
    by (simp_all add: workspace_ok_def capacity_def Let_def)
  show "length (ms s) = num_time_steps s" "length (Ms s) = num_time_steps s"
    "length (chol_Rs s) = num_time_steps s" "length (warped_Bs s) = num_time_steps s"
    "length (warped_rs s) = num_time_steps s" "length (capital_lambdas s) = num_time_steps s"
    "length (qr_capital_lambdas s) = num_time_steps s"
    "\<And>k. k < num_time_steps s \<Longrightarrow> length (ms s ! k) = NumPlayers s"
    "\<And>k. k < num_time_steps s \<Longrightarrow> length (Ms s ! k) = NumPlayers s"
    "\<And>k. k < num_time_steps s \<Longrightarrow> length (chol_Rs s ! k) = NumPlayers s"
    "\<And>k. k < num_time_steps s \<Longrightarrow> length (warped_Bs s ! k) = NumPlayers s"
    "\<And>k. k < num_time_steps s \<Longrightarrow> length (warped_rs s ! k) = NumPlayers s"
    using c m by blast+
qed

lemma workspace_ok_cong:
  "dims s' = dims s \<Longrightarrow> capacity s' = capacity s \<Longrightarrow> workspace_ok s' = workspace_ok s"
  by (simp add: workspace_ok_def dims_def)


lemma init_player_frame:
  "dims (init_player q ii s) = dims s" "capacity (init_player q ii s) = capacity s"
  "chol_Rs (init_player q ii s) = chol_Rs s" "warped_Bs (init_player q ii s) = warped_Bs s"
  "warped_rs (init_player q ii s) = warped_rs s"
  "capital_lambdas (init_player q ii s) = capital_lambdas s"
  "qr_capital_lambdas (init_player q ii s) = qr_capital_lambdas s"
  by (simp_all add: init_player_def Let_def dims_def capacity_def map_length_set2)

lemma init_player_ms:
  "ms (init_player q ii s) = set2 (ms s) (length (ms s) - 1) ii (grad (state (last q ! ii)))"
  "Ms (init_player q ii s) = set2 (Ms s) (length (Ms s) - 1) ii (hess (state (last q ! ii)))"
  by (simp_all add: init_player_def Let_def)

lemma init_terminal_inv:
  fixes q
  assumes ok: "workspace_ok s" and T: "0 < num_time_steps s"
  defines "L \<equiv> num_time_steps s - 1"
  defines "s' \<equiv> init_terminal q s"
  shows "dims s' = dims s" "capacity s' = capacity s"
    "chol_Rs s' = chol_Rs s" "warped_Bs s' = warped_Bs s" "warped_rs s' = warped_rs s"
    "capital_lambdas s' = capital_lambdas s" "qr_capital_lambdas s' = qr_capital_lambdas s"
    "\<And>i. i < NumPlayers s \<Longrightarrow> ms s' ! L ! i = grad (state (last q ! i))"
    "\<And>i. i < NumPlayers s \<Longrightarrow> Ms s' ! L ! i = hess (state (last q ! i))"
proof -
  define P where "P n t \<longleftrightarrow> dims t = dims s \<and> capacity t = capacity s
     \<and> chol_Rs t = chol_Rs s \<and> warped_Bs t = warped_Bs s \<and> warped_rs t = warped_rs s
     \<and> capital_lambdas t = capital_lambdas s \<and> qr_capital_lambdas t = qr_capital_lambdas s
     \<and> (\<forall>i<n. ms t ! L ! i = grad (state (last q ! i)) \<and> Ms t ! L ! i = hess (state (last q ! i)))"
    for n t
  have step: "P (Suc i) (init_player q i t)" if i: "i < NumPlayers s" and Pt: "P i t" for i t
  proof -
    from Pt have d: "dims t = dims s" and c: "capacity t = capacity s" by (simp_all add: P_def)
    then have okt: "workspace_ok t" using ok workspace_ok_cong by blast
    have nt: "num_time_steps t = num_time_steps s" "NumPlayers t = NumPlayers s"
      using d by (simp_all add: dims_def)
    note D = workspace_okD[OF okt, unfolded nt]
    have Llt: "L < num_time_steps s" using T by (simp add: L_def)
    have a: "ms (init_player q i t) ! L ! j = (if j = i then grad (state (last q ! i)) else ms t ! L ! j)" for j
      using D Llt i by (simp add: init_player_ms L_def set2_hit set2_miss)
    have b: "Ms (init_player q i t) ! L ! j = (if j = i then hess (state (last q ! i)) else Ms t ! L ! j)" for j
      using D Llt i by (simp add: init_player_ms L_def set2_hit set2_miss)
    show ?thesis
      using Pt by (auto simp: P_def init_player_frame a b less_Suc_eq)
  qed
  have "P (NumPlayers s) s'"
    unfolding s'_def init_terminal_def
    by (rule fold_upt_invariant) (simp add: P_def, rule step)
  then show "dims s' = dims s" "capacity s' = capacity s"
    "chol_Rs s' = chol_Rs s" "warped_Bs s' = warped_Bs s" "warped_rs s' = warped_rs s"
    "capital_lambdas s' = capital_lambdas s" "qr_capital_lambdas s' = qr_capital_lambdas s"
    "\<And>i. i < NumPlayers s \<Longrightarrow> ms s' ! L ! i = grad (state (last q ! i))"
    "\<And>i. i < NumPlayers s \<Longrightarrow> Ms s' ! L ! i = hess (state (last q ! i))"
    by (simp_all add: P_def)
qed


lemma lambda_player_Inr:
  assumes "lambda_player llt lin quad kk ii s = Inr t"
  shows "control (quad ! ii) ii \<noteq> None"
    "dims t = dims s" "capacity t = capacity s"
    "ms t = ms s" "Ms t = Ms s" "qr_capital_lambdas t = qr_capital_lambdas s"
    "chol_Rs t = set2 (chol_Rs s) kk ii (hess (own_control quad ii))"
    "warped_Bs t = set2 (warped_Bs s) kk ii
        (llt (set2 (chol_Rs s) kk ii (hess (own_control quad ii)) ! kk ! ii) (transpose_mat (Bs lin ! ii)))"
    "warped_rs t = set2 (warped_rs s) kk ii
        (llt (set2 (chol_Rs s) kk ii (hess (own_control quad ii)) ! kk ! ii) (grad (own_control quad ii)))"
    "capital_lambdas t = (capital_lambdas s)[kk := capital_lambdas s ! kk
        + Bs lin ! ii * warped_Bs t ! kk ! ii * Ms s ! (kk + 1) ! ii]"
  using assms
  by (auto simp: lambda_player_def Let_def own_control_def dims_def capacity_def map_length_set2
      split: option.splits)

lemma lambda_loop_inv:
  assumes run: "foldE (lambda_player llt lin quad kk) [0..<NumPlayers s] s = Inr t"
    and ok: "workspace_ok s" and kk: "kk < num_time_steps s"
  shows "dims t = dims s" "capacity t = capacity s"
    "ms t = ms s" "Ms t = Ms s" "qr_capital_lambdas t = qr_capital_lambdas s"
    "\<And>k. k \<noteq> kk \<Longrightarrow> chol_Rs t ! k = chol_Rs s ! k"
    "\<And>k. k \<noteq> kk \<Longrightarrow> warped_Bs t ! k = warped_Bs s ! k"
    "\<And>k. k \<noteq> kk \<Longrightarrow> warped_rs t ! k = warped_rs s ! k"
    "\<And>k. k \<noteq> kk \<Longrightarrow> capital_lambdas t ! k = capital_lambdas s ! k"
    "\<And>i. i < NumPlayers s \<Longrightarrow> control (quad ! i) i \<noteq> None"
    "\<And>i. i < NumPlayers s \<Longrightarrow> chol_Rs t ! kk ! i = hess (own_control quad i)"
    "\<And>i. i < NumPlayers s \<Longrightarrow> warped_Bs t ! kk ! i
        = llt (hess (own_control quad i)) (transpose_mat (Bs lin ! i))"
    "\<And>i. i < NumPlayers s \<Longrightarrow> warped_rs t ! kk ! i
        = llt (hess (own_control quad i)) (grad (own_control quad i))"
    "capital_lambdas t ! kk = foldl (+) (capital_lambdas s ! kk)
        (map (\<lambda>i. Bs lin ! i * warped_Bs t ! kk ! i * Ms s ! (kk + 1) ! i) [0..<NumPlayers s])"
proof -
  define W where "W i = llt (hess (own_control quad i)) (transpose_mat (Bs lin ! i))" for i
  define P where "P n u \<longleftrightarrow> dims u = dims s \<and> capacity u = capacity s
     \<and> ms u = ms s \<and> Ms u = Ms s \<and> qr_capital_lambdas u = qr_capital_lambdas s
     \<and> (\<forall>k. k \<noteq> kk \<longrightarrow> chol_Rs u ! k = chol_Rs s ! k \<and> warped_Bs u ! k = warped_Bs s ! k
            \<and> warped_rs u ! k = warped_rs s ! k \<and> capital_lambdas u ! k = capital_lambdas s ! k)
     \<and> (\<forall>i<n. control (quad ! i) i \<noteq> None \<and> chol_Rs u ! kk ! i = hess (own_control quad i)
            \<and> warped_Bs u ! kk ! i = W i
            \<and> warped_rs u ! kk ! i = llt (hess (own_control quad i)) (grad (own_control quad i)))
     \<and> capital_lambdas u ! kk = foldl (+) (capital_lambdas s ! kk)
          (map (\<lambda>i. Bs lin ! i * W i * Ms s ! (kk + 1) ! i) [0..<n])" for n u
  have step: "P (Suc i) u'"
    if i: "i < NumPlayers s" and Pu: "P i u" and r: "lambda_player llt lin quad kk i u = Inr u'"
    for i u u'
  proof -
    from Pu have d: "dims u = dims s" and c: "capacity u = capacity s" by (simp_all add: P_def)
    then have oku: "workspace_ok u" using ok workspace_ok_cong by blast
    have nt: "num_time_steps u = num_time_steps s" "NumPlayers u = NumPlayers s"
      using d by (simp_all add: dims_def)
    note D = workspace_okD[OF oku, unfolded nt]
    note L = lambda_player_Inr[OF r]
    have ch: "chol_Rs u' ! kk ! j = (if j = i then hess (own_control quad i) else chol_Rs u ! kk ! j)" for j
      using D kk i by (simp add: L set2_hit set2_miss)
    have wb: "warped_Bs u' ! kk ! j = (if j = i then W i else warped_Bs u ! kk ! j)" for j
      using D kk i by (simp add: L set2_hit set2_miss W_def)
    have wr: "warped_rs u' ! kk ! j = (if j = i then llt (hess (own_control quad i)) (grad (own_control quad i))
         else warped_rs u ! kk ! j)" for j
      using D kk i by (simp add: L set2_hit set2_miss)
    have cl: "capital_lambdas u' ! kk = capital_lambdas u ! kk + Bs lin ! i * W i * Ms u ! (kk + 1) ! i"
      using D kk by (simp add: L(10) wb)
    have oth: "k \<noteq> kk \<Longrightarrow> chol_Rs u' ! k = chol_Rs u ! k \<and> warped_Bs u' ! k = warped_Bs u ! k
            \<and> warped_rs u' ! k = warped_rs u ! k \<and> capital_lambdas u' ! k = capital_lambdas u ! k" for k
      by (simp add: L(7,8,9) set2_other) (simp add: L(10))
    show ?thesis
      unfolding P_def
      using Pu L(1-6) oth by (auto simp: P_def ch wb wr cl less_Suc_eq)
  qed
  have PP: "P (NumPlayers s) t"
    by (rule foldE_upt_invariant[OF run, where P = P]) (simp add: P_def, rule step)
  have mp: "map (\<lambda>i. Bs lin ! i * W i * Ms s ! (kk + 1) ! i) [0..<NumPlayers s]
      = map (\<lambda>i. Bs lin ! i * warped_Bs t ! kk ! i * Ms s ! (kk + 1) ! i) [0..<NumPlayers s]"
    by (rule map_cong) (use PP in \<open>auto simp: P_def\<close>)
  from PP show "dims t = dims s" "capacity t = capacity s"
    "ms t = ms s" "Ms t = Ms s" "qr_capital_lambdas t = qr_capital_lambdas s"
    "\<And>k. k \<noteq> kk \<Longrightarrow> chol_Rs t ! k = chol_Rs s ! k"
    "\<And>k. k \<noteq> kk \<Longrightarrow> warped_Bs t ! k = warped_Bs s ! k"
    "\<And>k. k \<noteq> kk \<Longrightarrow> warped_rs t ! k = warped_rs s ! k"
    "\<And>k. k \<noteq> kk \<Longrightarrow> capital_lambdas t ! k = capital_lambdas s ! k"
    "\<And>i. i < NumPlayers s \<Longrightarrow> control (quad ! i) i \<noteq> None"
    "\<And>i. i < NumPlayers s \<Longrightarrow> chol_Rs t ! kk ! i = hess (own_control quad i)"
    "\<And>i. i < NumPlayers s \<Longrightarrow> warped_Bs t ! kk ! i
        = llt (hess (own_control quad i)) (transpose_mat (Bs lin ! i))"
    "\<And>i. i < NumPlayers s \<Longrightarrow> warped_rs t ! kk ! i
        = llt (hess (own_control quad i)) (grad (own_control quad i))"
    by (simp_all add: P_def W_def)
  from PP have cl: "capital_lambdas t ! kk = foldl (+) (capital_lambdas s ! kk)
        (map (\<lambda>i. Bs lin ! i * W i * Ms s ! (kk + 1) ! i) [0..<NumPlayers s])"
    by (simp add: P_def)
  show "capital_lambdas t ! kk = foldl (+) (capital_lambdas s ! kk)
        (map (\<lambda>i. Bs lin ! i * warped_Bs t ! kk ! i * Ms s ! (kk + 1) ! i) [0..<NumPlayers s])"
    by (simp only: cl mp)
qed


lemma backward_relation_cong:
  assumes "dims s = dims t" "rows_at s k = rows_at t k" "rows_at s (k + 1) = rows_at t (k + 1)"
  shows "backward_relation llt qr lin quad s k = backward_relation llt qr lin quad t k"
  using assms by (simp add: backward_relation_def dims_def rows_at_def)

lemma value_player_frame:
  "dims (value_player qr lin quad nq kk ii s) = dims s"
  "capacity (value_player qr lin quad nq kk ii s) = capacity s"
  "chol_Rs (value_player qr lin quad nq kk ii s) = chol_Rs s"
  "warped_Bs (value_player qr lin quad nq kk ii s) = warped_Bs s"
  "warped_rs (value_player qr lin quad nq kk ii s) = warped_rs s"
  "capital_lambdas (value_player qr lin quad nq kk ii s) = capital_lambdas s"
  "qr_capital_lambdas (value_player qr lin quad nq kk ii s) = qr_capital_lambdas s"
  by (simp_all add: value_player_def Let_def dims_def capacity_def map_length_set2)

lemma value_player_Ms:
  "Ms (value_player qr lin quad nq kk ii s) = set2 (Ms s) kk ii
     (hess (state (quad ! ii)) + transpose_mat (Amat lin) * Ms s ! (kk + 1) ! ii
        * qr (qr_capital_lambdas s ! kk) (Amat lin))"
  by (simp add: value_player_def Let_def)

lemma value_player_ms:
  "ms (value_player qr lin quad nq kk ii s) = set2 (ms s) kk ii
     (grad (state (nq ! ii)) + transpose_mat (Amat lin)
        * (ms s ! (kk + 1) ! ii + Ms s ! (kk + 1) ! ii * qr (qr_capital_lambdas s ! kk)
            (fold (\<lambda>jj v. v - Bs lin ! jj * (warped_Bs s ! kk ! jj * ms s ! (kk + 1) ! ii
                                              + warped_rs s ! kk ! jj))
               [0..<NumPlayers s] (Zero (XDim s) 1))))"
  by (simp add: value_player_def Let_def set2_other)

lemma value_loop_inv:
  fixes qr lin quad nq kk s
  defines "t \<equiv> fold (value_player qr lin quad nq kk) [0..<NumPlayers s] s"
  assumes ok: "workspace_ok s" and kk: "kk < num_time_steps s"
  shows "dims t = dims s" "capacity t = capacity s"
    "chol_Rs t = chol_Rs s" "warped_Bs t = warped_Bs s" "warped_rs t = warped_rs s"
    "capital_lambdas t = capital_lambdas s" "qr_capital_lambdas t = qr_capital_lambdas s"
    "\<And>k. k \<noteq> kk \<Longrightarrow> Ms t ! k = Ms s ! k"
    "\<And>k. k \<noteq> kk \<Longrightarrow> ms t ! k = ms s ! k"
    "\<And>i. i < NumPlayers s \<Longrightarrow> Ms t ! kk ! i = hess (state (quad ! i))
        + transpose_mat (Amat lin) * Ms s ! (kk + 1) ! i * qr (qr_capital_lambdas s ! kk) (Amat lin)"
    "\<And>i. i < NumPlayers s \<Longrightarrow> ms t ! kk ! i = grad (state (nq ! i)) + transpose_mat (Amat lin)
        * (ms s ! (kk + 1) ! i + Ms s ! (kk + 1) ! i * qr (qr_capital_lambdas s ! kk)
            (fold (\<lambda>jj v. v - Bs lin ! jj * (warped_Bs s ! kk ! jj * ms s ! (kk + 1) ! i
                                              + warped_rs s ! kk ! jj))
               [0..<NumPlayers s] (Zero (XDim s) 1)))"
proof -
  define F where "F i = hess (state (quad ! i))
        + transpose_mat (Amat lin) * Ms s ! (kk + 1) ! i * qr (qr_capital_lambdas s ! kk) (Amat lin)" for i
  define G where "G i = grad (state (nq ! i)) + transpose_mat (Amat lin)
        * (ms s ! (kk + 1) ! i + Ms s ! (kk + 1) ! i * qr (qr_capital_lambdas s ! kk)
            (fold (\<lambda>jj v. v - Bs lin ! jj * (warped_Bs s ! kk ! jj * ms s ! (kk + 1) ! i
                                              + warped_rs s ! kk ! jj))
               [0..<NumPlayers s] (Zero (XDim s) 1)))" for i
  define P where "P n u \<longleftrightarrow> dims u = dims s \<and> capacity u = capacity s
     \<and> chol_Rs u = chol_Rs s \<and> warped_Bs u = warped_Bs s \<and> warped_rs u = warped_rs s
     \<and> capital_lambdas u = capital_lambdas s \<and> qr_capital_lambdas u = qr_capital_lambdas s
     \<and> (\<forall>k. k \<noteq> kk \<longrightarrow> Ms u ! k = Ms s ! k \<and> ms u ! k = ms s ! k)
     \<and> (\<forall>i<n. Ms u ! kk ! i = F i \<and> ms u ! kk ! i = G i)" for n u
  have step: "P (Suc i) (value_player qr lin quad nq kk i u)"
    if i: "i < NumPlayers s" and Pu: "P i u" for i u
  proof -
    from Pu have d: "dims u = dims s" and c: "capacity u = capacity s" by (simp_all add: P_def)
    then have oku: "workspace_ok u" using ok workspace_ok_cong by blast
    have nt: "num_time_steps u = num_time_steps s" "NumPlayers u = NumPlayers s" "XDim u = XDim s"
      using d by (simp_all add: dims_def)
    note D = workspace_okD[OF oku, unfolded nt]
    from Pu have nxt: "Ms u ! (kk + 1) = Ms s ! (kk + 1)" "ms u ! (kk + 1) = ms s ! (kk + 1)"
      and same: "warped_Bs u = warped_Bs s" "warped_rs u = warped_rs s"
        "qr_capital_lambdas u = qr_capital_lambdas s"
      by (simp_all add: P_def)
    have a: "Ms (value_player qr lin quad nq kk i u) ! kk ! j = (if j = i then F i else Ms u ! kk ! j)" for j
      using D kk i nxt same by (simp add: value_player_Ms set2_hit set2_miss F_def)
    have b: "ms (value_player qr lin quad nq kk i u) ! kk ! j = (if j = i then G i else ms u ! kk ! j)" for j
      using D kk i nxt same nt by (simp add: value_player_ms set2_hit set2_miss G_def)
    have oth: "k \<noteq> kk \<Longrightarrow> Ms (value_player qr lin quad nq kk i u) ! k = Ms u ! k
          \<and> ms (value_player qr lin quad nq kk i u) ! k = ms u ! k" for k
      by (simp add: value_player_Ms value_player_ms set2_other)
    show ?thesis
      unfolding P_def using Pu oth by (auto simp: P_def value_player_frame a b less_Suc_eq)
  qed
  have PP: "P (NumPlayers s) t"
    unfolding t_def by (rule fold_upt_invariant) (simp add: P_def, rule step)
  from PP show "dims t = dims s" "capacity t = capacity s"
    "chol_Rs t = chol_Rs s" "warped_Bs t = warped_Bs s" "warped_rs t = warped_rs s"
    "capital_lambdas t = capital_lambdas s" "qr_capital_lambdas t = qr_capital_lambdas s"
    "\<And>k. k \<noteq> kk \<Longrightarrow> Ms t ! k = Ms s ! k"
    "\<And>k. k \<noteq> kk \<Longrightarrow> ms t ! k = ms s ! k"
    "\<And>i. i < NumPlayers s \<Longrightarrow> Ms t ! kk ! i = hess (state (quad ! i))
        + transpose_mat (Amat lin) * Ms s ! (kk + 1) ! i * qr (qr_capital_lambdas s ! kk) (Amat lin)"
    "\<And>i. i < NumPlayers s \<Longrightarrow> ms t ! kk ! i = grad (state (nq ! i)) + transpose_mat (Amat lin)
        * (ms s ! (kk + 1) ! i + Ms s ! (kk + 1) ! i * qr (qr_capital_lambdas s ! kk)
            (fold (\<lambda>jj v. v - Bs lin ! jj * (warped_Bs s ! kk ! jj * ms s ! (kk + 1) ! i
                                              + warped_rs s ! kk ! jj))
               [0..<NumPlayers s] (Zero (XDim s) 1)))"
    by (simp_all add: P_def F_def G_def)
qed


lemma backward_step_correct:
  assumes ok: "workspace_ok s" and kk: "kk < num_time_steps s"
    and r: "backward_step llt qr lin quad kk s = Inr t"
  shows "dims t = dims s" "capacity t = capacity s"
    "\<And>k. k \<noteq> kk \<Longrightarrow> rows_at t k = rows_at s k"
    "backward_relation llt qr lin quad t kk"
proof -
  define s1 where "s1 = s\<lparr>capital_lambdas := (capital_lambdas s)[kk := Identity (XDim s) (XDim s)]\<rparr>"
  have d1: "dims s1 = dims s" and c1: "capacity s1 = capacity s"
    by (simp_all add: s1_def dims_def capacity_def)
  have ok1: "workspace_ok s1" using ok d1 c1 workspace_ok_cong by blast
  have n1: "num_time_steps s1 = num_time_steps s" "NumPlayers s1 = NumPlayers s" "XDim s1 = XDim s"
    using d1 by (simp_all add: dims_def)
  from r obtain s2 where s2: "foldE (lambda_player llt (lin ! kk) (quad ! kk) kk) [0..<NumPlayers s1] s1 = Inr s2"
    and t: "t = fold (value_player qr (lin ! kk) (quad ! kk) (quad ! (kk + 1)) kk)
                  [0..<NumPlayers s2]
                  (s2\<lparr>qr_capital_lambdas := (qr_capital_lambdas s2)[kk := capital_lambdas s2 ! kk]\<rparr>)"
    by (auto simp: backward_step_def Let_def s1_def split: sum.splits)
  note L = lambda_loop_inv[OF s2 ok1, unfolded n1, OF kk]
  define s3 where "s3 = s2\<lparr>qr_capital_lambdas := (qr_capital_lambdas s2)[kk := capital_lambdas s2 ! kk]\<rparr>"
  have d3: "dims s3 = dims s" and c3: "capacity s3 = capacity s"
    using L(1,2) d1 c1 by (simp_all add: s3_def dims_def capacity_def)
  have ok3: "workspace_ok s3" using ok d3 c3 workspace_ok_cong by blast
  have n3: "num_time_steps s3 = num_time_steps s" "NumPlayers s3 = NumPlayers s" "XDim s3 = XDim s"
    "NumPlayers s2 = NumPlayers s"
    using d3 by (simp_all add: dims_def s3_def)
  have t3: "t = fold (value_player qr (lin ! kk) (quad ! kk) (quad ! (kk + 1)) kk) [0..<NumPlayers s3] s3"
    by (simp add: t s3_def)
  note V = value_loop_inv[where qr = qr and lin = "lin ! kk" and quad = "quad ! kk"
      and nq = "quad ! (kk + 1)", OF ok3, unfolded n3, OF kk, folded t3[unfolded n3]]
  note D = workspace_okD[OF ok]
  note D1 = workspace_okD[OF ok1, unfolded n1]
  note D3 = workspace_okD[OF ok3, unfolded n3]
  have flds3: "ms s3 = ms s" "Ms s3 = Ms s" "chol_Rs s3 = chol_Rs s2" "warped_Bs s3 = warped_Bs s2"
    "warped_rs s3 = warped_rs s2" "capital_lambdas s3 = capital_lambdas s2"
    using L(3,4) by (simp_all add: s3_def s1_def)
  have qr3: "qr_capital_lambdas s3 ! kk = capital_lambdas s2 ! kk"
    "\<And>k. k \<noteq> kk \<Longrightarrow> qr_capital_lambdas s3 ! k = qr_capital_lambdas s ! k"
    using L(5) D1(7) kk by (simp_all add: s3_def s1_def)
  have cl1: "capital_lambdas s1 ! kk = Identity (XDim s) (XDim s)"
    "\<And>k. k \<noteq> kk \<Longrightarrow> capital_lambdas s1 ! k = capital_lambdas s ! k"
    using D(6) kk by (simp_all add: s1_def)
  have f1: "chol_Rs s1 = chol_Rs s" "warped_Bs s1 = warped_Bs s" "warped_rs s1 = warped_rs s"
    "Ms s1 = Ms s" "ms s1 = ms s"
    by (simp_all add: s1_def)
  show "dims t = dims s" using V(1) d3 by simp
  show "capacity t = capacity s" using V(2) c3 by simp
  show "rows_at t k = rows_at s k" if "k \<noteq> kk" for k
    using that by (simp add: rows_at_def V flds3 L(6-9) cl1 f1 qr3)
  have nt: "NumPlayers t = NumPlayers s" "XDim t = XDim s"
    using V(1) d3 by (simp_all add: dims_def)
  have nxt: "Ms t ! (kk + 1) = Ms s ! (kk + 1)" "ms t ! (kk + 1) = ms s ! (kk + 1)"
    using V(8,9)[of "kk + 1"] flds3 by simp_all
  show "backward_relation llt qr lin quad t kk"
    unfolding backward_relation_def Let_def nt nxt
    using L(10-14) by (simp add: V flds3 qr3 cl1 f1)
qed

lemma backward_loop_correct:
  assumes "workspace_ok s" and "n \<le> num_time_steps s"
    and "backward_loop llt qr lin quad n s = Inr t"
  shows "dims t = dims s \<and> capacity t = capacity s
    \<and> (\<forall>k\<ge>n. rows_at t k = rows_at s k)
    \<and> (\<forall>k<n. backward_relation llt qr lin quad t k)"
  using assms
proof (induction n arbitrary: s)
  case 0
  then show ?case by simp
next
  case (Suc n)
  from Suc.prems(3) obtain u where u: "backward_step llt qr lin quad n s = Inr u"
    and t: "backward_loop llt qr lin quad n u = Inr t"
    by (auto split: sum.splits)
  have n: "n < num_time_steps s" using Suc.prems(2) by simp
  note B = backward_step_correct[OF Suc.prems(1) n u]
  have oku: "workspace_ok u" using B(1,2) Suc.prems(1) workspace_ok_cong by blast
  have "n \<le> num_time_steps u" using B(1) n by (simp add: dims_def)
  from Suc.IH[OF oku this t]
  have IH: "dims t = dims u" "capacity t = capacity u" "\<And>k. k \<ge> n \<Longrightarrow> rows_at t k = rows_at u k"
    "\<And>k. k < n \<Longrightarrow> backward_relation llt qr lin quad t k"
    by simp_all
  have "backward_relation llt qr lin quad t n"
    using backward_relation_cong[OF IH(1) IH(3)[of n] IH(3)[of "n + 1"]] B(4) by simp
  then show ?case
    using IH B(1,2,3) by (auto simp: less_Suc_eq)
qed


subsection \<open>The backward pass within Solve\<close>

lemma last_nth: "length xs = T \<Longrightarrow> 0 < T \<Longrightarrow> last xs = xs ! (T - 1)"
  by (cases xs) (auto simp: last_conv_nth)

lemma Solve_InrD:
  assumes "Solve llt qr s lin quad x0 = Inr (strats, s')"
  shows "length lin = num_time_steps s" "length quad = num_time_steps s"
    "backward_loop llt qr lin quad (num_time_steps s - 1) (init_terminal quad s) = Inr s'"
    "strats = strategies (forward_loop qr lin s' (num_time_steps s - 1)
        \<lparr>strategies = map (\<lambda>ii. new_Strategy (num_time_steps s) (XDim s) (UDim s ii))
                         [0..<NumPlayers s],
         x_star = x0, last_x_star = x0\<rparr>)"
  using assms by (auto simp: Solve_def Let_def split: if_splits sum.splits)

lemma Solve_backward:
  assumes S: "Solve llt qr s lin quad x0 = Inr (strats, s')"
    and ok: "workspace_ok s" and T: "0 < num_time_steps s"
  shows "dims s' = dims s" "workspace_ok s'"
    "\<And>k. k + 1 < num_time_steps s \<Longrightarrow> backward_relation llt qr lin quad s' k"
    "\<And>i. i < NumPlayers s \<Longrightarrow> Ms s' ! (num_time_steps s - 1) ! i
        = hess (state (quad ! (num_time_steps s - 1) ! i))"
    "\<And>i. i < NumPlayers s \<Longrightarrow> ms s' ! (num_time_steps s - 1) ! i
        = grad (state (quad ! (num_time_steps s - 1) ! i))"
proof -
  note D = Solve_InrD[OF S]
  note I = init_terminal_inv[where q = quad, OF ok T]
  have ok1: "workspace_ok (init_terminal quad s)" using I(1,2) ok workspace_ok_cong by blast
  have le: "num_time_steps s - 1 \<le> num_time_steps (init_terminal quad s)"
    using I(1) by (simp add: dims_def)
  from backward_loop_correct[OF ok1 le D(3)]
  have B: "dims s' = dims (init_terminal quad s)" "capacity s' = capacity (init_terminal quad s)"
    "\<And>k. k \<ge> num_time_steps s - 1 \<Longrightarrow> rows_at s' k = rows_at (init_terminal quad s) k"
    "\<And>k. k < num_time_steps s - 1 \<Longrightarrow> backward_relation llt qr lin quad s' k"
    by simp_all
  show "dims s' = dims s" using B(1) I(1) by simp
  show "workspace_ok s'" using B(1,2) ok1 workspace_ok_cong by blast
  show "backward_relation llt qr lin quad s' k" if "k + 1 < num_time_steps s" for k
    using B(4)[of k] that by simp
  have lst: "last quad = quad ! (num_time_steps s - 1)"
    using D(2) T by (rule last_nth)
  have r: "Ms s' ! (num_time_steps s - 1) = Ms (init_terminal quad s) ! (num_time_steps s - 1)"
    "ms s' ! (num_time_steps s - 1) = ms (init_terminal quad s) ! (num_time_steps s - 1)"
    using B(3)[of "num_time_steps s - 1"] by (simp_all add: rows_at_def)
  show "Ms s' ! (num_time_steps s - 1) ! i = hess (state (quad ! (num_time_steps s - 1) ! i))"
    if "i < NumPlayers s" for i
    using I(9)[OF that] r lst by simp
  show "ms s' ! (num_time_steps s - 1) ! i = grad (state (quad ! (num_time_steps s - 1) ! i))"
    if "i < NumPlayers s" for i
    using I(8)[OF that] r lst by simp
qed

lemma init_terminal_cong:
  assumes "\<And>i. i < NumPlayers s \<Longrightarrow> state (last q' ! i) = state (last q ! i)"
  shows "init_terminal q' s = init_terminal q s"
proof -
  define P where "P n t \<longleftrightarrow> NumPlayers t = NumPlayers s" for n :: nat and t
  have "fold (init_player q') [0..<n] s = fold (init_player q) [0..<n] s" if "n \<le> NumPlayers s" for n
    using that
  proof (induction n)
    case 0 show ?case by simp
  next
    case (Suc n)
    then show ?case using assms[of n] by (simp add: init_player_def)
  qed
  then show ?thesis by (simp add: init_terminal_def)
qed

subsection \<open>Concrete runs: scenario S1\<close>

lemmas mat_eval = mk_mat_def coeff_def Identity_def Zero_def transpose_mat_def plus_mat_def
  minus_mat_def times_mat_def small_inverse_def small_solve_def scalar_def

lemmas solve_eval = Solve_def init_terminal_def init_player_def lambda_player_def value_player_def
  backward_step_def forward_step_def forward_loop_def alpha_player_def new_Strategy_def set2_def
  fresh_solver_def scalar_cost_def scalar_lin_def

lemma S1_run: "Solve small_solve small_solve S1_solver S1_lin S1_quad (scalar 1)
   = Inr ([\<lparr>Ps = [scalar 0], alphas = [scalar (1 / 2)]\<rparr>], S1_final)"
  by (simp add: S1_final_def S1_solver_def S1_lin_def S1_quad_def solve_eval mat_eval Let_def eval_nat_numeral)

lemma S1_ok: "workspace_ok S1_solver"
  by (simp add: workspace_ok_def capacity_def S1_solver_def fresh_solver_def eval_nat_numeral)

subsection \<open>What the backward pass reads\<close>

lemma foldE_cong_upt:
  assumes "\<And>i t. i < n \<Longrightarrow> f i t = g i t"
  shows "foldE f [0..<n] s = foldE g [0..<n] s"
  by (rule foldE_cong) (use assms in auto)

lemma lambda_loop_NumPlayers:
  "foldE (lambda_player llt lin quad kk) xs s = Inr t \<Longrightarrow> dims t = dims s"
proof (induction xs arbitrary: s)
  case Nil
  then show ?case by simp
next
  case (Cons x xs)
  then show ?case
    by (auto split: sum.splits dest!: lambda_player_Inr(2))
qed

lemma value_loop_dims: "dims (fold (value_player qr lin quad nq kk) xs s) = dims s"
  by (induction xs arbitrary: s) (simp_all add: value_player_frame)

lemma backward_step_dims:
  assumes "backward_step llt qr lin quad kk s = Inr t"
  shows "dims t = dims s"
proof -
  define s1 where "s1 = s\<lparr>capital_lambdas := (capital_lambdas s)[kk := Identity (XDim s) (XDim s)]\<rparr>"
  from assms obtain s2
    where s2: "foldE (lambda_player llt (lin ! kk) (quad ! kk) kk) [0..<NumPlayers s1] s1 = Inr s2"
      and t: "t = fold (value_player qr (lin ! kk) (quad ! kk) (quad ! (kk + 1)) kk)
                  [0..<NumPlayers s2]
                  (s2\<lparr>qr_capital_lambdas := (qr_capital_lambdas s2)[kk := capital_lambdas s2 ! kk]\<rparr>)"
    by (auto simp: backward_step_def Let_def s1_def split: sum.splits)
  have "dims s2 = dims s1" by (rule lambda_loop_NumPlayers[OF s2])
  then have "dims (s2\<lparr>qr_capital_lambdas := (qr_capital_lambdas s2)[kk := capital_lambdas s2 ! kk]\<rparr>)
      = dims s"
    by (simp add: dims_def s1_def)
  then show ?thesis unfolding t by (simp only: value_loop_dims)
qed

lemma lambda_player_cong:
  "control (quad ! ii) ii = control (quad' ! ii) ii
    \<Longrightarrow> lambda_player llt lin quad kk ii s = lambda_player llt lin quad' kk ii s"
  by (simp add: lambda_player_def)

lemma value_player_cong:
  "hess (state (quad ! ii)) = hess (state (quad' ! ii))
    \<Longrightarrow> grad (state (nq ! ii)) = grad (state (nq' ! ii))
    \<Longrightarrow> value_player qr lin quad nq kk ii s = value_player qr lin quad' nq' kk ii s"
  by (simp add: value_player_def)

lemma backward_step_cong:
  assumes "\<And>ii. ii < NumPlayers s \<Longrightarrow>
      hess (state (q ! kk ! ii)) = hess (state (q' ! kk ! ii))
      \<and> control (q ! kk ! ii) ii = control (q' ! kk ! ii) ii
      \<and> grad (state (q ! (kk + 1) ! ii)) = grad (state (q' ! (kk + 1) ! ii))"
  shows "backward_step llt qr lin q kk s = backward_step llt qr lin q' kk s"
proof -
  define s1 where "s1 = s\<lparr>capital_lambdas := (capital_lambdas s)[kk := Identity (XDim s) (XDim s)]\<rparr>"
  have n1: "NumPlayers s1 = NumPlayers s" by (simp add: s1_def)
  have l: "foldE (lambda_player llt (lin ! kk) (q ! kk) kk) [0..<NumPlayers s1] s1
      = foldE (lambda_player llt (lin ! kk) (q' ! kk) kk) [0..<NumPlayers s1] s1"
    by (rule foldE_cong_upt) (use assms n1 in \<open>auto intro: lambda_player_cong\<close>)
  have v: "fold (value_player qr (lin ! kk) (q ! kk) (q ! (kk + 1)) kk) [0..<NumPlayers s] u
      = fold (value_player qr (lin ! kk) (q' ! kk) (q' ! (kk + 1)) kk) [0..<NumPlayers s] u" for u
    by (rule fold_cong) (use assms in \<open>auto intro: value_player_cong\<close>)
  show ?thesis
  proof (cases "foldE (lambda_player llt (lin ! kk) (q' ! kk) kk) [0..<NumPlayers s1] s1")
    case (Inl e)
    then show ?thesis
      unfolding backward_step_def Let_def s1_def[symmetric] l by simp
  next
    case (Inr s2)
    have n2: "NumPlayers (s2\<lparr>qr_capital_lambdas :=
          (qr_capital_lambdas s2)[kk := capital_lambdas s2 ! kk]\<rparr>) = NumPlayers s"
      using lambda_loop_NumPlayers[OF Inr] n1 by (simp add: dims_def)
    show ?thesis
      unfolding backward_step_def Let_def s1_def[symmetric] l Inr sum.case n2 v ..
  qed
qed

lemma backward_loop_cong:
  assumes "\<And>kk ii. kk < n \<Longrightarrow> ii < NumPlayers s \<Longrightarrow>
      hess (state (q ! kk ! ii)) = hess (state (q' ! kk ! ii))
      \<and> control (q ! kk ! ii) ii = control (q' ! kk ! ii) ii
      \<and> grad (state (q ! (kk + 1) ! ii)) = grad (state (q' ! (kk + 1) ! ii))"
  shows "backward_loop llt qr lin q n s = backward_loop llt qr lin q' n s"
  using assms
proof (induction n arbitrary: s)
  case 0
  show ?case by simp
next
  case (Suc n)
  have st: "backward_step llt qr lin q n s = backward_step llt qr lin q' n s"
    by (rule backward_step_cong) (use Suc.prems in auto)
  show ?case
  proof (cases "backward_step llt qr lin q' n s")
    case (Inl e)
    then show ?thesis using st by simp
  next
    case (Inr u)
    then have "NumPlayers u = NumPlayers s"
      using backward_step_dims by (fastforce simp: dims_def)
    then have "backward_loop llt qr lin q n u = backward_loop llt qr lin q' n u"
      using Suc.prems by (intro Suc.IH) auto
    then show ?thesis using st Inr by simp
  qed
qed

lemma init_terminal_dims: "dims (init_terminal q s) = dims s"
proof -
  have "dims (fold (init_player q) xs s) = dims s" for xs
    by (induction xs arbitrary: s) (simp_all add: init_player_frame)
  then show ?thesis by (simp add: init_terminal_def)
qed

lemma Solve_cong:
  assumes len: "length q = length q'"
    and seed: "length q = num_time_steps s \<Longrightarrow> init_terminal q s = init_terminal q' s"
    and step: "\<And>kk ii. length q = num_time_steps s \<Longrightarrow> kk + 1 < num_time_steps s
      \<Longrightarrow> ii < NumPlayers s \<Longrightarrow>
      hess (state (q ! kk ! ii)) = hess (state (q' ! kk ! ii))
      \<and> control (q ! kk ! ii) ii = control (q' ! kk ! ii) ii
      \<and> grad (state (q ! (kk + 1) ! ii)) = grad (state (q' ! (kk + 1) ! ii))"
  shows "Solve llt qr s lin q x0 = Solve llt qr s lin q' x0"
proof (cases "length q = num_time_steps s")
  case True
  have n: "NumPlayers (init_terminal q' s) = NumPlayers s"
    using init_terminal_dims[of q' s] by (simp add: dims_def)
  have "backward_loop llt qr lin q (num_time_steps s - 1) (init_terminal q' s)
      = backward_loop llt qr lin q' (num_time_steps s - 1) (init_terminal q' s)"
    by (rule backward_loop_cong) (use step True n in auto)
  then show ?thesis
    using True len seed by (simp add: Solve_def Let_def)
next
  case False
  then show ?thesis using len by (simp add: Solve_def)
qed

subsection \<open>The forward loop\<close>

lemma alpha_loop_closed:
  "fold (alpha_player s kk x) [0..<n] strats
     = map (\<lambda>i. if i < n then (strats ! i)\<lparr>alphas := (alphas (strats ! i))[kk := alpha_value s kk i x]\<rparr>
                 else strats ! i) [0..<length strats]"
proof (induction n)
  case 0
  show ?case by (simp add: map_nth)
next
  case (Suc n)
  show ?case
    unfolding upt_Suc_append[OF le0] fold_append comp_apply fold_simps Suc.IH
    by (rule nth_equalityI) (auto simp: alpha_player_def alpha_value_def nth_list_update less_Suc_eq)
qed

lemma forward_step_fields:
  "x_star (forward_step qr lin s kk v)
     = qr (qr_capital_lambdas s ! kk) (forward_intermediary lin s kk (x_star v))"
  "last_x_star (forward_step qr lin s kk v) = x_star v"
  "strategies (forward_step qr lin s kk v)
     = map (\<lambda>i. if i < NumPlayers s
                 then (strategies v ! i)\<lparr>alphas := (alphas (strategies v ! i))
                        [kk := alpha_value s kk i (x_star (forward_step qr lin s kk v))]\<rparr>
                 else strategies v ! i) [0..<length (strategies v)]"
  by (simp_all add: forward_step_def Let_def forward_intermediary_def alpha_loop_closed)

lemma forward_loop_Suc:
  "forward_loop qr lin s (Suc k) v = forward_step qr lin s k (forward_loop qr lin s k v)"
  by (simp add: forward_loop_def)

lemma forward_loop_x_star:
  "x_star v = x_star v' \<Longrightarrow> x_star (forward_loop qr lin s k v) = x_star (forward_loop qr lin s k v')"
  by (induction k) (simp_all add: forward_loop_Suc forward_step_fields, simp add: forward_loop_def)

lemma x_trajectory_eq:
  "x_star v = x0 \<Longrightarrow> x_star (forward_loop qr lin s k v) = x_trajectory qr lin s x0 k"
  unfolding x_trajectory_def by (rule forward_loop_x_star) simp

lemma x_trajectory_simps:
  "x_trajectory qr lin s x0 0 = x0"
  "x_trajectory qr lin s x0 (Suc k)
     = qr (qr_capital_lambdas s ! k) (forward_intermediary lin s k (x_trajectory qr lin s x0 k))"
  by (simp_all add: x_trajectory_def forward_loop_Suc forward_step_fields, simp add: forward_loop_def)

lemma forward_loop_strategies:
  assumes "x_star v = x0"
  shows "length (strategies (forward_loop qr lin s n v)) = length (strategies v)
    \<and> (\<forall>i<length (strategies v).
          Ps (strategies (forward_loop qr lin s n v) ! i) = Ps (strategies v ! i)
        \<and> length (alphas (strategies (forward_loop qr lin s n v) ! i))
            = length (alphas (strategies v ! i))
        \<and> (\<forall>k<length (alphas (strategies v ! i)).
             alphas (strategies (forward_loop qr lin s n v) ! i) ! k
               = (if k < n \<and> i < NumPlayers s
                  then alpha_value s k i (x_trajectory qr lin s x0 (Suc k))
                  else alphas (strategies v ! i) ! k)))"
proof (induction n)
  case 0
  show ?case by (simp add: forward_loop_def)
next
  case (Suc n)
  have x: "x_star (forward_step qr lin s n (forward_loop qr lin s n v))
      = x_trajectory qr lin s x0 (Suc n)"
    using x_trajectory_eq[OF assms, of qr lin s "Suc n"] by (simp add: forward_loop_Suc)
  show ?case
    using Suc.IH
    by (auto simp: forward_loop_Suc forward_step_fields(3) x nth_list_update less_Suc_eq)
qed

subsection \<open>Shapes and coefficients of matrix operations\<close>

lemma dims_mk_mat [simp]: "rows (mk_mat r c f) = r" "cols (mk_mat r c f) = c"
  by (simp_all add: mk_mat_def)

lemma wf_mk_mat [simp]: "wf_mat (mk_mat r c f)"
  by (simp add: wf_mat_def mk_mat_def list_all_iff)

lemma coeff_mk_mat [simp]: "i < r \<Longrightarrow> j < c \<Longrightarrow> coeff (mk_mat r c f) i j = f i j"
  by (simp add: coeff_def mk_mat_def)

lemma mk_mat_cong:
  "(\<And>i j. i < r \<Longrightarrow> j < c \<Longrightarrow> f i j = g i j) \<Longrightarrow> mk_mat r c f = mk_mat r c g"
  by (simp add: mk_mat_def)

lemma mk_mat_coeff: "wf_mat M \<Longrightarrow> mk_mat (rows M) (cols M) (coeff M) = M"
proof (cases M)
  case (Mat r c xs)
  assume "wf_mat M"
  then have l: "length xs = r" and rl: "\<And>i. i < r \<Longrightarrow> length (xs ! i) = c"
    using Mat by (auto simp: wf_mat_def list_all_length)
  have "map (\<lambda>i. map (\<lambda>j. xs ! i ! j) [0..<c]) [0..<r] = xs"
    by (rule nth_equalityI) (use l rl in \<open>auto intro: nth_equalityI\<close>)
  then show ?thesis using Mat by (simp add: mk_mat_def coeff_def)
qed

lemma mat_eqI:
  assumes "wf_mat M" "wf_mat N" "rows M = rows N" "cols M = cols N"
    and "\<And>i j. i < rows N \<Longrightarrow> j < cols N \<Longrightarrow> coeff M i j = coeff N i j"
  shows "M = N"
proof -
  have "mk_mat (rows M) (cols M) (coeff M) = mk_mat (rows N) (cols N) (coeff N)"
    unfolding assms(3,4) by (rule mk_mat_cong) (rule assms(5))
  then show ?thesis using assms(1,2) by (simp add: mk_mat_coeff)
qed

lemma dims_ops [simp]:
  "rows (M + N) = rows M" "cols (M + N) = cols M"
  "rows (M - N) = rows M" "cols (M - N) = cols M"
  "rows (M * N) = rows M" "cols (M * N) = cols N"
  "rows (transpose_mat M) = cols M" "cols (transpose_mat M) = rows M"
  "rows (smult a M) = rows M" "cols (smult a M) = cols M"
  "rows (Identity r c) = r" "cols (Identity r c) = c"
  "rows (Zero r c) = r" "cols (Zero r c) = c"
  by (simp_all add: plus_mat_def minus_mat_def times_mat_def transpose_mat_def smult_def
      Identity_def Zero_def)

lemma wf_ops [simp]:
  "wf_mat (M + N)" "wf_mat (M - N)" "wf_mat (M * N)" "wf_mat (transpose_mat M)"
  "wf_mat (smult a M)" "wf_mat (Identity r c)" "wf_mat (Zero r c)"
  by (simp_all add: plus_mat_def minus_mat_def times_mat_def transpose_mat_def smult_def
      Identity_def Zero_def)

lemma coeff_ops:
  "i < rows M \<Longrightarrow> j < cols M \<Longrightarrow> coeff (M + N) i j = coeff M i j + coeff N i j"
  "i < rows M \<Longrightarrow> j < cols M \<Longrightarrow> coeff (M - N) i j = coeff M i j - coeff N i j"
  "i < rows M \<Longrightarrow> j < cols N \<Longrightarrow> coeff (M * N) i j = (\<Sum>k<cols M. coeff M i k * coeff N k j)"
  "i < cols M \<Longrightarrow> j < rows M \<Longrightarrow> coeff (transpose_mat M) i j = coeff M j i"
  "i < rows M \<Longrightarrow> j < cols M \<Longrightarrow> coeff (smult a M) i j = a * coeff M i j"
  "i < r \<Longrightarrow> j < c \<Longrightarrow> coeff (Identity r c) i j = (if i = j then 1 else 0)"
  "i < r \<Longrightarrow> j < c \<Longrightarrow> coeff (Zero r c) i j = 0"
  by (simp_all add: plus_mat_def minus_mat_def times_mat_def transpose_mat_def smult_def
      Identity_def Zero_def)


lemma fold_minus_dims:
  "rows (fold (\<lambda>i w. w - f i) xs M) = rows M" "cols (fold (\<lambda>i w. w - f i) xs M) = cols M"
  by (induction xs arbitrary: M) simp_all

lemma forward_intermediary_dims:
  "rows (forward_intermediary lin s k x) = rows (Amat (lin ! k))"
  "cols (forward_intermediary lin s k x) = cols x"
  by (simp_all add: forward_intermediary_def fold_minus_dims)

lemma x_trajectory_cols:
  "solver_shape qr \<Longrightarrow> cols (x_trajectory qr lin s x0 k) = cols x0"
  by (induction k) (simp_all add: x_trajectory_simps solver_shape_def forward_intermediary_dims)

lemma alpha_value_dims:
  "rows (alpha_value s k i x) = rows (warped_Bs s ! k ! i)" "cols (alpha_value s k i x) = cols x"
  "wf_mat (alpha_value s k i x)"
  by (simp_all add: alpha_value_def)

lemma Solve_strategies:
  assumes S: "Solve llt qr s lin quad x0 = Inr (strats, s')"
  shows "length strats = NumPlayers s"
    "\<And>i. i < NumPlayers s \<Longrightarrow> Ps (strats ! i) = replicate (num_time_steps s - 1) (Zero (UDim s i) (XDim s))"
    "\<And>i. i < NumPlayers s \<Longrightarrow> length (alphas (strats ! i)) = num_time_steps s - 1"
    "\<And>i k. i < NumPlayers s \<Longrightarrow> k < num_time_steps s - 1 \<Longrightarrow> NumPlayers s' = NumPlayers s \<Longrightarrow>
        alphas (strats ! i) ! k = alpha_value s' k i (x_trajectory qr lin s' x0 (Suc k))"
proof -
  note D = Solve_InrD[OF S]
  define v0 where "v0 = \<lparr>strategies = map (\<lambda>ii. new_Strategy (num_time_steps s) (XDim s) (UDim s ii))
                         [0..<NumPlayers s], x_star = x0, last_x_star = x0\<rparr>"
  have x0: "x_star v0 = x0" by (simp add: v0_def)
  have len: "length (strategies v0) = NumPlayers s"
    "\<And>i. i < NumPlayers s \<Longrightarrow> length (alphas (strategies v0 ! i)) = num_time_steps s - 1"
    "\<And>i. i < NumPlayers s \<Longrightarrow> Ps (strategies v0 ! i)
        = replicate (num_time_steps s - 1) (Zero (UDim s i) (XDim s))"
    by (simp_all add: v0_def new_Strategy_def)
  note F = forward_loop_strategies[OF x0, of qr lin s' "num_time_steps s - 1",
      unfolded len(1), folded D(4)[folded v0_def]]
  show "length strats = NumPlayers s" using F by simp
  show "Ps (strats ! i) = replicate (num_time_steps s - 1) (Zero (UDim s i) (XDim s))"
    if "i < NumPlayers s" for i
    using F that len(3) by simp
  show "length (alphas (strats ! i)) = num_time_steps s - 1" if "i < NumPlayers s" for i
    using F that len(2) by simp
  show "alphas (strats ! i) ! k = alpha_value s' k i (x_trajectory qr lin s' x0 (Suc k))"
    if "i < NumPlayers s" "k < num_time_steps s - 1" "NumPlayers s' = NumPlayers s" for i k
    using F that len(2) by simp
qed

subsection \<open>Concrete runs: the two-agent game\<close>

lemma G_run: "Solve small_solve small_solve G_solver G_lin G_quad G_x0 = Inr (G_strategies, G_final)"
  by (simp add: G_final_def G_strategies_def G_solver_def G_lin_def G_quad_def G_x0_def own_cost_def
      solve_eval mat_eval Let_def eval_nat_numeral)

lemma G_ok: "workspace_ok G_solver"
  by (simp add: workspace_ok_def capacity_def G_solver_def fresh_solver_def eval_nat_numeral)

lemma small_solve_shape: "solver_shape small_solve"
  by (simp add: solver_shape_def small_solve_def small_inverse_def)



subsection \<open>Matrix algebra\<close>

lemma mat_mult_assoc:
  assumes "cols A = rows B" "cols B = rows C"
  shows "A * B * C = A * (B * C)"
proof (rule mat_eqI)
  fix i j assume i: "i < rows (A * (B * C))" and j: "j < cols (A * (B * C))"
  then have i': "i < rows A" and j': "j < cols C" by simp_all
  have "coeff (A * B * C) i j = (\<Sum>l<cols B. (\<Sum>k<cols A. coeff A i k * coeff B k l) * coeff C l j)"
    using i' j' by (simp add: coeff_ops)
  also have "\<dots> = (\<Sum>l<cols B. \<Sum>k<cols A. coeff A i k * coeff B k l * coeff C l j)"
    by (simp add: sum_distrib_right)
  also have "\<dots> = (\<Sum>k<cols A. \<Sum>l<cols B. coeff A i k * coeff B k l * coeff C l j)"
    by (rule sum.swap)
  also have "\<dots> = (\<Sum>k<cols A. coeff A i k * (\<Sum>l<cols B. coeff B k l * coeff C l j))"
    by (simp add: sum_distrib_left mult.assoc)
  also have "\<dots> = (\<Sum>k<cols A. coeff A i k * coeff (B * C) k j)"
    using assms j' by (intro sum.cong) (simp_all add: coeff_ops)
  also have "\<dots> = coeff (A * (B * C)) i j"
    using i' j' by (simp add: coeff_ops)
  finally show "coeff (A * B * C) i j = coeff (A * (B * C)) i j" .
qed simp_all

lemma identity_mult:
  assumes "wf_mat Y" "rows Y = n"
  shows "Identity n n * Y = Y"
proof (rule mat_eqI)
  fix i j assume i: "i < rows Y" and j: "j < cols Y"
  have "coeff (Identity n n * Y) i j = (\<Sum>k<n. coeff (Identity n n) i k * coeff Y k j)"
    using i j assms by (simp add: coeff_ops)
  also have "\<dots> = (\<Sum>k<n. if k = i then coeff Y k j else 0)"
    using i assms by (intro sum.cong) (auto simp: coeff_ops)
  also have "\<dots> = coeff Y i j"
    using i assms by simp
  finally show "coeff (Identity n n * Y) i j = coeff Y i j" .
qed (use assms in simp_all)

lemma transpose_mult:
  assumes "cols A = rows B"
  shows "transpose_mat (A * B) = transpose_mat B * transpose_mat A"
proof (rule mat_eqI)
  fix i j assume "i < rows (transpose_mat B * transpose_mat A)"
    and "j < cols (transpose_mat B * transpose_mat A)"
  then have i: "i < cols B" and j: "j < rows A" by simp_all
  have "coeff (transpose_mat B * transpose_mat A) i j
      = (\<Sum>k<rows B. coeff (transpose_mat B) i k * coeff (transpose_mat A) k j)"
    using i j by (simp add: coeff_ops)
  also have "\<dots> = (\<Sum>k<rows B. coeff A j k * coeff B k i)"
    using i j assms by (intro sum.cong) (simp_all add: coeff_ops mult.commute)
  finally show "coeff (transpose_mat (A * B)) i j = coeff (transpose_mat B * transpose_mat A) i j"
    using i j assms by (simp add: coeff_ops)
qed simp_all

lemma transpose_add:
  assumes "rows A = rows B" "cols A = cols B"
  shows "transpose_mat (A + B) = transpose_mat A + transpose_mat B"
  by (rule mat_eqI) (use assms in \<open>simp_all add: coeff_ops\<close>)

lemma transpose_transpose:
  assumes "wf_mat A"
  shows "transpose_mat (transpose_mat A) = A"
  by (rule mat_eqI) (use assms in \<open>simp_all add: coeff_ops\<close>)

lemma transpose_identity: "transpose_mat (Identity n n) = Identity n n"
  by (rule mat_eqI) (auto simp: coeff_ops)

lemma add_mult_distrib_mat:
  assumes "rows A = rows B" "cols A = cols B"
  shows "(A + B) * C = A * C + B * C"
proof (rule mat_eqI)
  fix i j assume "i < rows (A * C + B * C)" and "j < cols (A * C + B * C)"
  then have i: "i < rows A" and j: "j < cols C" by simp_all
  have "coeff ((A + B) * C) i j = (\<Sum>k<cols A. (coeff A i k + coeff B i k) * coeff C k j)"
    using i j by (simp add: coeff_ops)
  also have "\<dots> = coeff (A * C + B * C) i j"
    using i j assms by (simp add: coeff_ops distrib_right sum.distrib)
  finally show "coeff ((A + B) * C) i j = coeff (A * C + B * C) i j" .
qed simp_all

lemma mult_lin_comb:
  assumes "cols M = rows U" "rows V = rows U" "cols V = cols U"
  shows "M * (smult a U + smult b V) = smult a (M * U) + smult b (M * V)"
proof (rule mat_eqI)
  fix i j assume "i < rows (smult a (M * U) + smult b (M * V))"
    and "j < cols (smult a (M * U) + smult b (M * V))"
  then have i: "i < rows M" and j: "j < cols U" by simp_all
  have "coeff (M * (smult a U + smult b V)) i j
      = (\<Sum>k<cols M. coeff M i k * (a * coeff U k j + b * coeff V k j))"
    using i j assms by (simp add: coeff_ops)
  also have "\<dots> = a * (\<Sum>k<cols M. coeff M i k * coeff U k j)
      + b * (\<Sum>k<cols M. coeff M i k * coeff V k j)"
    by (simp add: sum_distrib_left sum.distrib algebra_simps)
  also have "\<dots> = coeff (smult a (M * U) + smult b (M * V)) i j"
    using i j assms by (simp add: coeff_ops)
  finally show "coeff (M * (smult a U + smult b V)) i j
      = coeff (smult a (M * U) + smult b (M * V)) i j" .
qed simp_all

lemma lin_comb_minus:
  assumes "rows V = rows U" "cols V = cols U" "a + b = 1"
  shows "(smult a U + smult b V) - C = smult a (U - C) + smult b (V - C)"
proof (rule mat_eqI)
  fix i j assume "i < rows (smult a (U - C) + smult b (V - C))"
    and "j < cols (smult a (U - C) + smult b (V - C))"
  then have i: "i < rows U" and j: "j < cols U" by simp_all
  have "a * coeff C i j + b * coeff C i j = coeff C i j"
    using assms(3) by (simp add: distrib_right[symmetric])
  then show "coeff (smult a U + smult b V - C) i j = coeff (smult a (U - C) + smult b (V - C)) i j"
    using i j assms by (simp add: coeff_ops algebra_simps)
qed simp_all

lemma lin_comb_plus:
  assumes "rows V = rows U" "cols V = cols U" "a + b = 1"
  shows "(smult a U + smult b V) + C = smult a (U + C) + smult b (V + C)"
proof (rule mat_eqI)
  fix i j assume "i < rows (smult a (U + C) + smult b (V + C))"
    and "j < cols (smult a (U + C) + smult b (V + C))"
  then have i: "i < rows U" and j: "j < cols U" by simp_all
  have "a * coeff C i j + b * coeff C i j = coeff C i j"
    using assms(3) by (simp add: distrib_right[symmetric])
  then show "coeff (smult a U + smult b V + C) i j = coeff (smult a (U + C) + smult b (V + C)) i j"
    using i j assms by (simp add: coeff_ops algebra_simps)
qed simp_all

lemma lin_comb_fold_minus:
  assumes "rows V = rows U" "cols V = cols U" "a + b = 1"
  shows "fold (\<lambda>i w. w - f i) xs (smult a U + smult b V)
       = smult a (fold (\<lambda>i w. w - f i) xs U) + smult b (fold (\<lambda>i w. w - f i) xs V)"
  using assms(1,2)
proof (induction xs arbitrary: U V)
  case Nil
  show ?case by simp
next
  case (Cons x xs)
  show ?case
    using Cons.prems by (simp add: lin_comb_minus[OF Cons.prems assms(3)] Cons.IH)
qed

subsection \<open>Exact solves and affine combinations\<close>

lemma solves_exactlyD:
  assumes "solves_exactly f M"
  shows "\<And>Y. wf_mat Y \<Longrightarrow> rows Y = rows M \<Longrightarrow> has_shape (cols M) (cols Y) (f M Y)"
    "\<And>Y. wf_mat Y \<Longrightarrow> rows Y = rows M \<Longrightarrow> M * f M Y = Y"
    "\<And>U V. wf_mat U \<Longrightarrow> wf_mat V \<Longrightarrow> rows U = cols M \<Longrightarrow> rows V = cols M
        \<Longrightarrow> cols U = cols V \<Longrightarrow> M * U = M * V \<Longrightarrow> U = V"
  using assms unfolding solves_exactly_def by blast+

lemma solve_lin_comb:
  assumes ex: "solves_exactly f M"
    and Y: "wf_mat Y" "wf_mat Z" "rows Y = rows M" "rows Z = rows M" "cols Z = cols Y"
  shows "f M (smult a Y + smult b Z) = smult a (f M Y) + smult b (f M Z)"
proof -
  note E = solves_exactlyD[OF ex]
  let ?L = "smult a Y + smult b Z"
  have L: "wf_mat ?L" "rows ?L = rows M" "cols ?L = cols Y" using Y by simp_all
  note sY = E(1)[OF Y(1,3), unfolded has_shape_def] and sZ = E(1)[OF Y(2,4), unfolded has_shape_def]
    and sL = E(1)[OF L(1,2), unfolded has_shape_def]
  have "M * (smult a (f M Y) + smult b (f M Z)) = smult a (M * f M Y) + smult b (M * f M Z)"
    by (rule mult_lin_comb) (use sY sZ Y(5) in simp_all)
  also have "\<dots> = ?L" by (simp add: E(2)[OF Y(1,3)] E(2)[OF Y(2,4)])
  also have "\<dots> = M * f M ?L" by (simp add: E(2)[OF L(1,2)])
  finally have eq: "M * f M ?L = M * (smult a (f M Y) + smult b (f M Z))" by simp
  show ?thesis
    by (rule E(3)) (use eq sY sZ sL L(3) Y(5) in simp_all)
qed

lemma well_shapedD:
  assumes "well_shaped s lin quad" "k < num_time_steps s"
  shows "has_shape (XDim s) (XDim s) (Amat (lin ! k))"
    "\<And>i. i < NumPlayers s \<Longrightarrow> has_shape (XDim s) (UDim s i) (Bs (lin ! k) ! i)"
    "\<And>i. i < NumPlayers s \<Longrightarrow> has_shape (XDim s) (XDim s) (hess (state (quad ! k ! i)))"
    "\<And>i. i < NumPlayers s \<Longrightarrow> has_shape (XDim s) 1 (grad (state (quad ! k ! i)))"
    "\<And>i. i < NumPlayers s \<Longrightarrow> k + 1 < num_time_steps s
        \<Longrightarrow> has_shape (UDim s i) (UDim s i) (hess (own_control (quad ! k) i))"
    "\<And>i. i < NumPlayers s \<Longrightarrow> k + 1 < num_time_steps s
        \<Longrightarrow> has_shape (UDim s i) 1 (grad (own_control (quad ! k) i))"
  using assms unfolding well_shaped_def by blast+

lemma Ms_shape:
  assumes S: "Solve llt qr s lin quad x0 = Inr (strats, s')"
    and ok: "workspace_ok s" and ws: "well_shaped s lin quad"
    and k: "k < num_time_steps s" and i: "i < NumPlayers s"
  shows "has_shape (XDim s) (XDim s) (Ms s' ! k ! i)"
proof -
  have T: "0 < num_time_steps s" using k by simp
  note B = Solve_backward[OF S ok T]
  have d: "NumPlayers s' = NumPlayers s" using B(1) by (simp add: dims_def)
  show ?thesis
  proof (cases "k + 1 < num_time_steps s")
    case True
    have "Ms s' ! k ! i = hess (state (quad ! k ! i))
        + transpose_mat (Amat (lin ! k)) * Ms s' ! (k + 1) ! i
            * qr (capital_lambdas s' ! k) (Amat (lin ! k))"
      using B(3)[OF True] i d by (simp add: backward_relation_def Let_def)
    then show ?thesis
      using well_shapedD(3)[OF ws k i] by (simp add: has_shape_def)
  next
    case False
    then have "k = num_time_steps s - 1" using k by simp
    then show ?thesis using B(4)[OF i] well_shapedD(3)[OF ws k i] by simp
  qed
qed

lemma fold_minus_wf: "wf_mat M \<Longrightarrow> wf_mat (fold (\<lambda>i w. w - f i) xs M)"
  by (induction xs arbitrary: M) simp_all

lemma forward_intermediary_wf: "wf_mat (forward_intermediary lin s k x)"
  by (simp add: forward_intermediary_def fold_minus_wf)

lemma foldl_plus_dims:
  "rows (foldl (+) M xs) = rows M" "cols (foldl (+) M xs) = cols M"
  by (induction xs arbitrary: M) simp_all

lemma Solve_any_x0:
  assumes "Solve llt qr s lin quad x0 = Inr (strats, s')"
  shows "\<exists>st. Solve llt qr s lin quad x = Inr (st, s')"
  using Solve_InrD[OF assms] by (simp add: Solve_def Let_def)

lemma x_trajectory_lin_comb:
  assumes S: "Solve llt qr s lin quad x0 = Inr (strats, s')"
    and ok: "workspace_ok s" and ws: "well_shaped s lin quad"
    and x: "has_shape (XDim s) 1 x1" "has_shape (XDim s) 1 x2"
    and ex: "\<forall>k<num_time_steps s - 1. solves_exactly qr (capital_lambdas s' ! k)"
    and ab: "a + b = 1" and k: "k < num_time_steps s"
  shows "x_trajectory qr lin s' (smult a x1 + smult b x2) k
           = smult a (x_trajectory qr lin s' x1 k) + smult b (x_trajectory qr lin s' x2 k)
       \<and> has_shape (XDim s) 1 (x_trajectory qr lin s' x1 k)
       \<and> has_shape (XDim s) 1 (x_trajectory qr lin s' x2 k)"
  using k
proof (induction k)
  case 0
  show ?case using x by (simp add: x_trajectory_simps)
next
  case (Suc k)
  then have k: "k + 1 < num_time_steps s" "k < num_time_steps s" "k < num_time_steps s - 1"
    by simp_all
  have T: "0 < num_time_steps s" using k by simp
  note B = Solve_backward[OF S ok T]
  have d: "NumPlayers s' = NumPlayers s" "XDim s' = XDim s" using B(1) by (simp_all add: dims_def)
  define L where "L = capital_lambdas s' ! k"
  have q: "qr_capital_lambdas s' ! k = L"
    and Ldef: "L = foldl (+) (Identity (XDim s) (XDim s))
        (map (\<lambda>i. Bs (lin ! k) ! i * warped_Bs s' ! k ! i * Ms s' ! (k + 1) ! i) [0..<NumPlayers s])"
    using B(3)[OF k(1)] d by (simp_all add: backward_relation_def Let_def L_def)
  have Ldims: "rows L = XDim s" "cols L = XDim s" by (simp_all add: Ldef foldl_plus_dims)
  have exL: "solves_exactly qr L" using ex k(3) by (simp add: L_def)
  note A = well_shapedD(1)[OF ws k(2), unfolded has_shape_def]
  from Suc.IH[OF k(2)]
  have IH: "x_trajectory qr lin s' (smult a x1 + smult b x2) k
           = smult a (x_trajectory qr lin s' x1 k) + smult b (x_trajectory qr lin s' x2 k)"
    and s1: "has_shape (XDim s) 1 (x_trajectory qr lin s' x1 k)"
    and s2: "has_shape (XDim s) 1 (x_trajectory qr lin s' x2 k)"
    by simp_all
  let ?u = "x_trajectory qr lin s' x1 k" and ?v = "x_trajectory qr lin s' x2 k"
  note u = s1[unfolded has_shape_def] and v = s2[unfolded has_shape_def]
  have fi: "forward_intermediary lin s' k (smult a ?u + smult b ?v)
      = smult a (forward_intermediary lin s' k ?u) + smult b (forward_intermediary lin s' k ?v)"
  proof -
    have m: "Amat (lin ! k) * (smult a ?u + smult b ?v)
        = smult a (Amat (lin ! k) * ?u) + smult b (Amat (lin ! k) * ?v)"
      by (rule mult_lin_comb) (use A u v in simp_all)
    show ?thesis
      unfolding forward_intermediary_def m
      by (rule lin_comb_fold_minus) (use u v ab in simp_all)
  qed
  have fs: "wf_mat (forward_intermediary lin s' k y)"
    "rows (forward_intermediary lin s' k y) = rows L"
    "cols (forward_intermediary lin s' k y) = cols y" for y
    using A Ldims by (simp_all add: forward_intermediary_dims forward_intermediary_wf)
  have "x_trajectory qr lin s' (smult a x1 + smult b x2) (Suc k)
      = qr L (smult a (forward_intermediary lin s' k ?u) + smult b (forward_intermediary lin s' k ?v))"
    by (simp add: x_trajectory_simps q IH fi)
  also have "\<dots> = smult a (qr L (forward_intermediary lin s' k ?u))
      + smult b (qr L (forward_intermediary lin s' k ?v))"
    by (rule solve_lin_comb[OF exL]) (use u v in \<open>simp_all add: fs\<close>)
  finally have 1: "x_trajectory qr lin s' (smult a x1 + smult b x2) (Suc k)
      = smult a (x_trajectory qr lin s' x1 (Suc k)) + smult b (x_trajectory qr lin s' x2 (Suc k))"
    by (simp add: x_trajectory_simps q)
  have 2: "has_shape (XDim s) 1 (x_trajectory qr lin s' y (Suc k))"
    if "cols (x_trajectory qr lin s' y k) = 1" for y
    using solves_exactlyD(1)[OF exL fs(1,2), of "x_trajectory qr lin s' y k"] that
    by (simp add: x_trajectory_simps q fs Ldims)
  show ?case using 1 2 u v by simp
qed

lemma alpha_value_lin_comb:
  assumes "cols M = rows U" "rows V = rows U" "cols V = cols U" "a + b = 1"
    and "M = Ms s ! (k + 1) ! i" and "cols (warped_Bs s ! k ! i) = rows M"
  shows "alpha_value s k i (smult a U + smult b V)
       = smult a (alpha_value s k i U) + smult b (alpha_value s k i V)"
proof -
  let ?m = "ms s ! (k + 1) ! i" and ?W = "warped_Bs s ! k ! i" and ?w = "warped_rs s ! k ! i"
  have 1: "M * (smult a U + smult b V) + ?m = smult a (M * U + ?m) + smult b (M * V + ?m)"
    using assms(1-4) by (simp add: mult_lin_comb lin_comb_plus)
  have 2: "?W * (smult a (M * U + ?m) + smult b (M * V + ?m))
      = smult a (?W * (M * U + ?m)) + smult b (?W * (M * V + ?m))"
    by (rule mult_lin_comb) (use assms in simp_all)
  have 3: "smult a (?W * (M * U + ?m)) + smult b (?W * (M * V + ?m)) + ?w
      = smult a (?W * (M * U + ?m) + ?w) + smult b (?W * (M * V + ?m) + ?w)"
    by (rule lin_comb_plus) (use assms in simp_all)
  show ?thesis
    unfolding alpha_value_def assms(5)[symmetric] 1 2 3 ..
qed

subsection \<open>Symmetry of one Riccati step\<close>

text \<open>
  With \<open>S = B \<cdot> W\<close> symmetric and \<open>\<Lambda> \<cdot> X = A\<close> for \<open>\<Lambda> = I + S \<cdot> M'\<close>, the product \<open>A\<^sup>T \<cdot> M' \<cdot> X\<close> is
  \<open>X\<^sup>T \<cdot> (M' + M' \<cdot> S \<cdot> M') \<cdot> X\<close>, which is symmetric when \<open>M'\<close> is.
\<close>

lemma solves_exactly_inverse:
  assumes M: "wf_mat M" "rows M = n" "cols M = n"
    and Mi: "rows Mi = n" "cols Mi = n"
    and inv: "M * Mi = Identity n n" "Mi * M = Identity n n"
    and f: "\<And>Y. f M Y = Mi * Y"
  shows "solves_exactly f M"
  unfolding solves_exactly_def
proof (intro conjI allI impI)
  fix Y assume Y: "wf_mat Y \<and> rows Y = rows M"
  show "has_shape (cols M) (cols Y) (f M Y)"
    using M Mi by (simp add: f has_shape_def)
  have "M * (Mi * Y) = M * Mi * Y"
    using M Mi Y by (simp add: mat_mult_assoc)
  then show "M * f M Y = Y"
    using Y M by (simp add: f inv identity_mult)
next
  fix U V
  assume a: "wf_mat U \<and> wf_mat V \<and> rows U = cols M \<and> rows V = cols M \<and> cols U = cols V
               \<and> M * U = M * V"
  then have "Mi * (M * U) = Mi * (M * V)" by simp
  then have "Mi * M * U = Mi * M * V"
    using a M Mi by (simp add: mat_mult_assoc)
  then show "U = V"
    using a M by (simp add: inv identity_mult)
qed

lemma symmetricD: "symmetric M \<Longrightarrow> transpose_mat M = M"
  by (simp add: symmetric_def)

lemma riccati_symmetric:
  assumes Q: "symmetric Q" "has_shape n n Q"
    and M': "symmetric M'" "has_shape n n M'"
    and R: "symmetric R" "has_shape m m R"
    and B: "has_shape n m B"
    and W: "has_shape m n W" "R * W = transpose_mat B"
    and X: "has_shape n n X" "(Identity n n + B * W * M') * X = A"
  shows "symmetric (Q + transpose_mat A * M' * X)"
proof -
  note q = Q(2)[unfolded has_shape_def] and m' = M'(2)[unfolded has_shape_def]
    and r = R(2)[unfolded has_shape_def] and b = B[unfolded has_shape_def]
    and w = W(1)[unfolded has_shape_def] and x = X(1)[unfolded has_shape_def]
  note tQ = symmetricD[OF Q(1)] and tM = symmetricD[OF M'(1)] and tR = symmetricD[OF R(1)]
  define S where "S = B * W"
  have Sd: "rows S = n" "cols S = n" using b w by (simp_all add: S_def)
  have "B = transpose_mat (transpose_mat B)" using b by (simp add: transpose_transpose)
  also have "\<dots> = transpose_mat (R * W)" by (simp add: W(2))
  also have "\<dots> = transpose_mat W * R" using r w by (simp add: transpose_mult tR)
  finally have Beq: "B = transpose_mat W * R" .
  have "S = transpose_mat W * R * W" unfolding S_def using Beq by simp
  also have "\<dots> = transpose_mat W * (R * W)" using r w by (simp add: mat_mult_assoc)
  also have "\<dots> = transpose_mat W * transpose_mat B" by (simp add: W(2))
  also have "\<dots> = transpose_mat (B * W)" using b w by (simp add: transpose_mult)
  finally have tS: "transpose_mat S = S" by (simp add: S_def)
  define L where "L = Identity n n + S * M'"
  have Ld: "rows L = n" "cols L = n" by (simp_all add: L_def)
  have tL: "transpose_mat L = Identity n n + M' * S"
    unfolding L_def using Sd m' by (simp add: transpose_add transpose_identity transpose_mult tS tM)
  have A: "A = L * X" using X(2) by (simp add: L_def S_def)
  have tA: "transpose_mat A = transpose_mat X * (Identity n n + M' * S)"
    unfolding A using Ld x by (simp add: transpose_mult tL)
  define P where "P = M' + M' * S * M'"
  have Pd: "rows P = n" "cols P = n" "wf_mat P" using m' by (simp_all add: P_def)
  have "(Identity n n + M' * S) * M' = Identity n n * M' + M' * S * M'"
    using m' Sd by (simp add: add_mult_distrib_mat)
  then have IP: "(Identity n n + M' * S) * M' = P"
    using m' by (simp add: identity_mult P_def)
  have "transpose_mat (M' * S * M') = M' * (S * M')"
    using m' Sd by (simp add: transpose_mult tS tM)
  also have "\<dots> = M' * S * M'" using m' Sd by (simp add: mat_mult_assoc)
  finally have "transpose_mat P = P"
    unfolding P_def using m' by (simp add: transpose_add tM)
  note tP = this
  define G where "G = transpose_mat X * P * X"
  have Gd: "rows G = n" "cols G = n" using x by (simp_all add: G_def)
  have "transpose_mat A * M' * X = transpose_mat X * ((Identity n n + M' * S) * M') * X"
    unfolding tA using x m' Sd by (simp add: mat_mult_assoc)
  then have AG: "transpose_mat A * M' * X = G" by (simp add: IP G_def)
  have "transpose_mat G = transpose_mat X * (P * X)"
    unfolding G_def using x Pd by (simp add: transpose_mult tP transpose_transpose)
  also have "\<dots> = G" unfolding G_def using x Pd by (simp add: mat_mult_assoc)
  finally have tG: "transpose_mat G = G" .
  have "transpose_mat (Q + G) = Q + G"
    using q Gd by (simp add: transpose_add tQ tG)
  then show ?thesis by (simp add: symmetric_def AG)
qed

subsection \<open>Concrete runs: the single-agent problem\<close>

lemmas H_eval = H_final_def H_strategies_def H_solver_def H_lin_def H_quad_def own_cost_def
  solve_eval mat_eval Let_def eval_nat_numeral

lemma H_run1: "Solve small_solve small_solve H_solver H_lin H_quad (Mat 2 1 [[1], [1]])
    = Inr (H_strategies 2, H_final)"
  by (simp add: H_eval)

lemma H_run2: "Solve small_solve small_solve H_solver H_lin H_quad (Mat 2 1 [[0], [3]])
    = Inr (H_strategies (7 / 2), H_final)"
  by (simp add: H_eval)

lemma H_run3: "Solve small_solve small_solve H_solver H_lin H_quad
      (smult 2 (Mat 2 1 [[1], [1]]) + smult (- 1) (Mat 2 1 [[0], [3]]))
    = Inr (H_strategies (1 / 2), H_final)"
  by (simp add: H_eval smult_def)

lemma H_ok: "workspace_ok H_solver"
  by (simp add: workspace_ok_def capacity_def H_solver_def fresh_solver_def eval_nat_numeral)

lemma H_shaped: "well_shaped H_solver H_lin H_quad"
  by (simp add: well_shaped_def H_solver_def fresh_solver_def H_lin_def H_quad_def own_cost_def
      own_control_def has_shape_def wf_mat_def scalar_def eval_nat_numeral less_Suc_eq
      all_conj_distrib)

lemma small_solve_exact:
  assumes "wf_mat M" "rows M = n" "cols M = n"
    and "M * small_inverse M = Identity n n" "small_inverse M * M = Identity n n"
  shows "solves_exactly small_solve M"
  by (rule solves_exactly_inverse[where Mi = "small_inverse M" and n = n])
    (use assms in \<open>simp_all add: small_solve_def small_inverse_def\<close>)

lemma H_exact:
  "solves_exactly small_solve (scalar 1)"
  "solves_exactly small_solve (capital_lambdas H_final ! 0)"
proof -
  show "solves_exactly small_solve (scalar 1)"
    by (rule small_solve_exact[where n = 1]) (simp_all add: mat_eval wf_mat_def)
  show "solves_exactly small_solve (capital_lambdas H_final ! 0)"
    by (rule small_solve_exact[where n = 2])
      (simp_all add: H_final_def mat_eval wf_mat_def eval_nat_numeral)
qed

section \<open>The backward pass\<close>

text \<open>
  In the statements below \<open>llt R X\<close> is what \<^verbatim>\<open>Eigen::LLT\<close>, computed from \<open>R\<close>, returns
  for the right-hand side \<open>X\<close> (the spec's \<open>R\<^sup>-\<^sup>1 \<cdot> X\<close> through the Cholesky factor), and
  \<open>qr \<Lambda> X\<close> is what the QR object computed from \<open>\<Lambda>\<close> returns (the spec's \<open>\<Lambda>\<^sup>-\<^sup>1 \<cdot> X\<close>). A sum
  over the agents is accumulated in the order of the source, from agent \<open>0\<close> upwards.
\<close>

text \<open>
  Claim C1. When \<^verbatim>\<open>Solve\<close> returns, then for every time step \<open>k \<le> T - 2\<close> and every agent
  \<open>i\<close>: \<open>warpedB[k][i]\<close> is the Cholesky solve of \<open>R\<^sub>i\<^sub>i\<^sub>,\<^sub>k\<close> against \<open>B\<^sub>i\<^sub>,\<^sub>k\<^sup>T\<close>; the coupling
  matrix is \<open>\<Lambda>\<^sub>k = I + \<Sum>\<^sub>j B\<^sub>j\<^sub>,\<^sub>k \<cdot> warpedB[k][j] \<cdot> M[k+1][j]\<close>; and
  \<open>M[k][i] = Q\<^sub>i\<^sub>,\<^sub>k + A\<^sub>k\<^sup>T \<cdot> M[k+1][i] \<cdot> (\<Lambda>\<^sub>k\<^sup>-\<^sup>1 \<cdot> A\<^sub>k)\<close> with \<open>Q\<^sub>i\<^sub>,\<^sub>k\<close> the state Hessian of
  \<open>quadraticization[k][i]\<close>.
\<close>

theorem backward_pass_value_hessian:
  assumes "Solve llt qr s linearization quadraticization x0 = Inr (strats, s')"
    and "workspace_ok s" and "k + 2 \<le> num_time_steps s" and "i < NumPlayers s"
  shows "(\<exists>R. control (quadraticization ! k ! i) i = Some R
            \<and> warped_Bs s' ! k ! i = llt (hess R) (transpose_mat (Bs (linearization ! k) ! i)))
       \<and> capital_lambdas s' ! k
           = foldl (+) (Identity (XDim s) (XDim s))
               (map (\<lambda>j. Bs (linearization ! k) ! j * warped_Bs s' ! k ! j * Ms s' ! (k + 1) ! j)
                  [0..<NumPlayers s])
       \<and> Ms s' ! k ! i
           = hess (state (quadraticization ! k ! i))
               + transpose_mat (Amat (linearization ! k)) * Ms s' ! (k + 1) ! i
                   * qr (capital_lambdas s' ! k) (Amat (linearization ! k))"
proof -
  have T: "0 < num_time_steps s" "k + 1 < num_time_steps s" using assms(3) by simp_all
  note B = Solve_backward[OF assms(1,2) T(1)]
  have d: "NumPlayers s' = NumPlayers s" "XDim s' = XDim s" using B(1) by (simp_all add: dims_def)
  from B(3)[OF T(2)] assms(4) show ?thesis
    unfolding backward_relation_def Let_def d
    by (auto simp: own_control_def)
qed

theorem backward_pass_value_hessian_witness:
  "Solve small_solve small_solve S1_solver S1_lin S1_quad (scalar 1)
     = Inr ([\<lparr>Ps = [scalar 0], alphas = [scalar (1 / 2)]\<rparr>], S1_final)
   \<and> workspace_ok S1_solver \<and> 0 + 2 \<le> num_time_steps S1_solver \<and> 0 < NumPlayers S1_solver
   \<and> control (S1_quad ! 0 ! 0) 0 = Some \<lparr>hess = scalar 1, grad = scalar 0\<rparr>
   \<and> warped_Bs S1_final ! 0 ! 0 = small_solve (scalar 1) (transpose_mat (scalar 1))
   \<and> capital_lambdas S1_final ! 0
        = Identity 1 1 + scalar 1 * warped_Bs S1_final ! 0 ! 0 * Ms S1_final ! 1 ! 0
   \<and> Ms S1_final ! 0 ! 0
        = scalar 1 + transpose_mat (scalar 1) * Ms S1_final ! 1 ! 0
            * small_solve (capital_lambdas S1_final ! 0) (scalar 1)
   \<and> Ms S1_final ! 0 ! 0 = scalar (3 / 2)"
proof -
  have T: "0 + 2 \<le> num_time_steps S1_solver" and N: "0 < NumPlayers S1_solver"
    by (simp_all add: S1_solver_def fresh_solver_def)
  note W = backward_pass_value_hessian[OF S1_run S1_ok T N]
  have c: "control (S1_quad ! 0 ! 0) 0 = Some \<lparr>hess = scalar 1, grad = scalar 0\<rparr>"
    by (simp add: S1_quad_def scalar_cost_def)
  have e: "Ms S1_final ! 0 ! 0 = scalar (3 / 2)"
    by (simp add: S1_final_def)
  show ?thesis
    using S1_run S1_ok T N W c e
    by (simp add: S1_solver_def fresh_solver_def S1_lin_def S1_quad_def scalar_lin_def
        scalar_cost_def)
qed

text \<open>
  Claim C3. When \<^verbatim>\<open>Solve\<close> returns, then for every time step \<open>k \<le> T - 2\<close> and every agent
  \<open>i\<close> the value gradient is \<open>m[k][i] = l\<^sub>i\<^sub>,\<^sub>k\<^sub>+\<^sub>1 + A\<^sub>k\<^sup>T \<cdot> (m[k+1][i] + M[k+1][i] \<cdot> (\<Lambda>\<^sub>k\<^sup>-\<^sup>1 \<cdot> \<iota>\<^sub>i))\<close>
  with \<open>\<iota>\<^sub>i = - \<Sum>\<^sub>j B\<^sub>j\<^sub>,\<^sub>k \<cdot> (warpedB[k][j] \<cdot> m[k+1][i] + warpedR[k][j])\<close>, where the state
  gradient \<open>l\<^sub>i\<^sub>,\<^sub>k\<^sub>+\<^sub>1\<close> is read from the next step, \<open>quadraticization[k+1][i]\<close>, while the
  value Hessian reads the state Hessian of the current step, \<open>quadraticization[k][i]\<close>.
\<close>

theorem backward_pass_value_gradient:
  assumes "Solve llt qr s linearization quadraticization x0 = Inr (strats, s')"
    and "workspace_ok s" and "k + 2 \<le> num_time_steps s" and "i < NumPlayers s"
  shows "ms s' ! k ! i
           = grad (state (quadraticization ! (k + 1) ! i))
               + transpose_mat (Amat (linearization ! k))
                   * (ms s' ! (k + 1) ! i
                        + Ms s' ! (k + 1) ! i
                            * qr (capital_lambdas s' ! k)
                                (fold (\<lambda>j v. v - Bs (linearization ! k) ! j
                                          * (warped_Bs s' ! k ! j * ms s' ! (k + 1) ! i
                                               + warped_rs s' ! k ! j))
                                   [0..<NumPlayers s] (Zero (XDim s) 1)))
       \<and> Ms s' ! k ! i
           = hess (state (quadraticization ! k ! i))
               + transpose_mat (Amat (linearization ! k)) * Ms s' ! (k + 1) ! i
                   * qr (capital_lambdas s' ! k) (Amat (linearization ! k))"
proof -
  have T: "0 < num_time_steps s" "k + 1 < num_time_steps s" using assms(3) by simp_all
  note B = Solve_backward[OF assms(1,2) T(1)]
  have d: "NumPlayers s' = NumPlayers s" "XDim s' = XDim s" using B(1) by (simp_all add: dims_def)
  from B(3)[OF T(2)] assms(4) show ?thesis
    unfolding backward_relation_def Let_def d
    by simp
qed

theorem backward_pass_value_gradient_witness:
  "Solve small_solve small_solve S1_solver S1_lin S1_quad (scalar 1)
     = Inr ([\<lparr>Ps = [scalar 0], alphas = [scalar (1 / 2)]\<rparr>], S1_final)
   \<and> workspace_ok S1_solver \<and> 0 + 2 \<le> num_time_steps S1_solver \<and> 0 < NumPlayers S1_solver
   \<and> ms S1_final ! 0 ! 0
        = grad (state (S1_quad ! 1 ! 0))
            + transpose_mat (scalar 1)
                * (ms S1_final ! 1 ! 0
                     + Ms S1_final ! 1 ! 0
                         * small_solve (capital_lambdas S1_final ! 0)
                             (Zero 1 1 - scalar 1 * (warped_Bs S1_final ! 0 ! 0 * ms S1_final ! 1 ! 0
                                                      + warped_rs S1_final ! 0 ! 0)))
   \<and> Ms S1_final ! 0 ! 0
        = hess (state (S1_quad ! 0 ! 0)) + transpose_mat (scalar 1) * Ms S1_final ! 1 ! 0
            * small_solve (capital_lambdas S1_final ! 0) (scalar 1)"
proof -
  have T: "0 + 2 \<le> num_time_steps S1_solver" and N: "0 < NumPlayers S1_solver"
    by (simp_all add: S1_solver_def fresh_solver_def)
  note W = backward_pass_value_gradient[OF S1_run S1_ok T N]
  show ?thesis
    using S1_run S1_ok T N W
    by (simp add: S1_solver_def fresh_solver_def S1_lin_def scalar_lin_def)
qed

text \<open>
  Claim C4. Before the backward loop, \<^verbatim>\<open>Solve\<close> seeds the terminal value terms of every agent
  \<open>i\<close> from the terminal state cost alone: \<open>M[T-1][i]\<close> is the state Hessian and \<open>m[T-1][i]\<close>
  the state gradient of \<open>quadraticization[T-1][i]\<close>. The backward loop leaves them in place,
  and the seeding is the same for any other cost with the same terminal state terms,
  whatever its control terms.
\<close>

theorem terminal_seeding:
  assumes "Solve llt qr s linearization quadraticization x0 = Inr (strats, s')"
    and "workspace_ok s" and "0 < num_time_steps s" and "i < NumPlayers s"
  shows "Ms (init_terminal quadraticization s) ! (num_time_steps s - 1) ! i
           = hess (state (quadraticization ! (num_time_steps s - 1) ! i))
       \<and> ms (init_terminal quadraticization s) ! (num_time_steps s - 1) ! i
           = grad (state (quadraticization ! (num_time_steps s - 1) ! i))
       \<and> Ms s' ! (num_time_steps s - 1) ! i
           = hess (state (quadraticization ! (num_time_steps s - 1) ! i))
       \<and> ms s' ! (num_time_steps s - 1) ! i
           = grad (state (quadraticization ! (num_time_steps s - 1) ! i))
       \<and> (\<forall>q. length q = num_time_steps s
              \<and> (\<forall>j<NumPlayers s. state (q ! (num_time_steps s - 1) ! j)
                                   = state (quadraticization ! (num_time_steps s - 1) ! j))
            \<longrightarrow> init_terminal q s = init_terminal quadraticization s)"
proof -
  note D = Solve_InrD[OF assms(1)]
  have lst: "last quadraticization = quadraticization ! (num_time_steps s - 1)"
    using D(2) assms(3) by (rule last_nth)
  note I = init_terminal_inv[where q = quadraticization, OF assms(2,3)]
  note B = Solve_backward[OF assms(1-3)]
  have "init_terminal q s = init_terminal quadraticization s"
    if "length q = num_time_steps s"
      and "\<forall>j<NumPlayers s. state (q ! (num_time_steps s - 1) ! j)
                                   = state (quadraticization ! (num_time_steps s - 1) ! j)" for q
  proof (rule init_terminal_cong)
    fix j assume "j < NumPlayers s"
    moreover have "last q = q ! (num_time_steps s - 1)"
      using that(1) assms(3) by (rule last_nth)
    ultimately show "state (last q ! j) = state (last quadraticization ! j)"
      using that(2) lst by simp
  qed
  then show ?thesis
    using I(8,9)[OF assms(4)] B(4,5)[OF assms(4)] lst by simp
qed

theorem terminal_seeding_witness:
  "Solve small_solve small_solve S1_solver S1_lin S1_quad (scalar 1)
     = Inr ([\<lparr>Ps = [scalar 0], alphas = [scalar (1 / 2)]\<rparr>], S1_final)
   \<and> workspace_ok S1_solver \<and> 0 < num_time_steps S1_solver \<and> 0 < NumPlayers S1_solver
   \<and> Ms S1_final ! 1 ! 0 = scalar 1 \<and> ms S1_final ! 1 ! 0 = scalar 0
   \<and> init_terminal [[scalar_cost 7 7 7 7], [scalar_cost 1 0 5 6]] S1_solver
       = init_terminal S1_quad S1_solver"
proof -
  have T: "0 < num_time_steps S1_solver" and N: "0 < NumPlayers S1_solver"
    by (simp_all add: S1_solver_def fresh_solver_def)
  note W = terminal_seeding[OF S1_run S1_ok T N]
  have a: "Ms S1_final ! 1 ! 0 = scalar 1 \<and> ms S1_final ! 1 ! 0 = scalar 0"
    using W by (simp add: S1_solver_def fresh_solver_def S1_quad_def scalar_cost_def)
  have "length [[scalar_cost 7 7 7 7], [scalar_cost 1 0 5 6]] = num_time_steps S1_solver
     \<and> (\<forall>j<NumPlayers S1_solver. state ([[scalar_cost 7 7 7 7], [scalar_cost 1 0 5 6]] ! (num_time_steps S1_solver - 1) ! j)
          = state (S1_quad ! (num_time_steps S1_solver - 1) ! j))"
    by (simp add: S1_solver_def fresh_solver_def S1_quad_def scalar_cost_def)
  with W have b: "init_terminal [[scalar_cost 7 7 7 7], [scalar_cost 1 0 5 6]] S1_solver
       = init_terminal S1_quad S1_solver"
    by blast
  show ?thesis using S1_run S1_ok T N a b by simp
qed

section \<open>The forward pass\<close>

text \<open>
  Claim C2. When \<^verbatim>\<open>Solve\<close> returns, the forward loop starts from \<open>x* = x0\<close> and, for every time
  step \<open>k \<le> T - 2\<close>, forms \<open>\<iota> = A\<^sub>k \<cdot> x* - \<Sum>\<^sub>j B\<^sub>j\<^sub>,\<^sub>k \<cdot> (warpedB[k][j] \<cdot> m[k+1][j] + warpedR[k][j])\<close>,
  replaces \<open>x*\<close> by the QR solve of \<open>\<Lambda>\<^sub>k\<close> against \<open>\<iota>\<close>, with the \<open>\<Lambda>\<^sub>k\<close> the backward pass left,
  and sets \<open>\<alpha>\<^sub>i\<^sub>,\<^sub>k = warpedB[k][i] \<cdot> (M[k+1][i] \<cdot> x* + m[k+1][i]) + warpedR[k][i]\<close> for every agent
  \<open>i\<close>, with the state already updated.
\<close>

theorem forward_pass:
  assumes "Solve llt qr s linearization quadraticization x0 = Inr (strats, s')"
    and "workspace_ok s" and "k + 2 \<le> num_time_steps s" and "i < NumPlayers s"
  shows "x_trajectory qr linearization s' x0 0 = x0
       \<and> x_trajectory qr linearization s' x0 (k + 1)
           = qr (capital_lambdas s' ! k)
               (fold (\<lambda>j w. w - Bs (linearization ! k) ! j
                               * (warped_Bs s' ! k ! j * ms s' ! (k + 1) ! j + warped_rs s' ! k ! j))
                  [0..<NumPlayers s]
                  (Amat (linearization ! k) * x_trajectory qr linearization s' x0 k))
       \<and> alphas (strats ! i) ! k
           = warped_Bs s' ! k ! i
               * (Ms s' ! (k + 1) ! i * x_trajectory qr linearization s' x0 (k + 1)
                    + ms s' ! (k + 1) ! i)
               + warped_rs s' ! k ! i"
proof -
  have T: "0 < num_time_steps s" "k + 1 < num_time_steps s" using assms(3) by simp_all
  note B = Solve_backward[OF assms(1,2) T(1)]
  note D = Solve_InrD[OF assms(1)]
  have d: "NumPlayers s' = NumPlayers s" using B(1) by (simp add: dims_def)
  have q: "qr_capital_lambdas s' ! k = capital_lambdas s' ! k"
    using B(3)[OF T(2)] by (simp add: backward_relation_def Let_def)
  define v0 where "v0 = \<lparr>strategies = map (\<lambda>ii. new_Strategy (num_time_steps s) (XDim s) (UDim s ii))
                         [0..<NumPlayers s], x_star = x0, last_x_star = x0\<rparr>"
  have x0: "x_star v0 = x0" by (simp add: v0_def)
  have len: "i < length (strategies v0)" "k < length (alphas (strategies v0 ! i))"
    using assms(3,4) by (simp_all add: v0_def new_Strategy_def)
  have kT: "k < num_time_steps s - 1" using assms(3) by simp
  from forward_loop_strategies[OF x0, of qr linearization s' "num_time_steps s - 1"] len
  have "alphas (strats ! i) ! k = alpha_value s' k i (x_trajectory qr linearization s' x0 (Suc k))"
    unfolding D(4) v0_def[symmetric] using kT assms(4) d by simp
  then show ?thesis
    by (simp add: x_trajectory_simps q forward_intermediary_def d alpha_value_def)
qed

theorem forward_pass_witness:
  "Solve small_solve small_solve S1_solver S1_lin S1_quad (scalar 1)
     = Inr ([\<lparr>Ps = [scalar 0], alphas = [scalar (1 / 2)]\<rparr>], S1_final)
   \<and> workspace_ok S1_solver \<and> 0 + 2 \<le> num_time_steps S1_solver \<and> 0 < NumPlayers S1_solver
   \<and> x_trajectory small_solve S1_lin S1_final (scalar 1) 0 = scalar 1
   \<and> x_trajectory small_solve S1_lin S1_final (scalar 1) (0 + 1)
        = small_solve (capital_lambdas S1_final ! 0)
            (scalar 1 * x_trajectory small_solve S1_lin S1_final (scalar 1) 0
               - scalar 1 * (warped_Bs S1_final ! 0 ! 0 * ms S1_final ! 1 ! 0
                              + warped_rs S1_final ! 0 ! 0))
   \<and> alphas ([\<lparr>Ps = [scalar 0], alphas = [scalar (1 / 2)]\<rparr>] ! 0) ! 0
        = warped_Bs S1_final ! 0 ! 0
            * (Ms S1_final ! 1 ! 0 * x_trajectory small_solve S1_lin S1_final (scalar 1) (0 + 1)
                 + ms S1_final ! 1 ! 0)
            + warped_rs S1_final ! 0 ! 0"
proof -
  have T: "0 + 2 \<le> num_time_steps S1_solver" and N: "0 < NumPlayers S1_solver"
    by (simp_all add: S1_solver_def fresh_solver_def)
  note W = forward_pass[OF S1_run S1_ok T N]
  show ?thesis
    using S1_run S1_ok T N W
    by (simp add: S1_solver_def fresh_solver_def S1_lin_def scalar_lin_def)
qed

text \<open>
  Claim C5. When \<^verbatim>\<open>Solve\<close> returns, with library solvers that return matrices of Eigen's
  shapes, an initial state that is a vector and own control Hessians \<open>R\<^sub>i\<^sub>i\<^sub>,\<^sub>k\<close> with \<open>m\<^sub>i\<close> columns,
  the list of strategies has length \<open>N\<close>, and strategy \<open>i\<close> has exactly \<open>T - 1\<close> feedforward
  terms, each a vector of length \<open>m\<^sub>i\<close>, and \<open>T - 1\<close> feedback gains, each the zero matrix of
  shape \<open>m\<^sub>i \<times> n\<close>. The number of terms of a strategy is that of the constructor as the spec
  describes it; \<^verbatim>\<open>Solve\<close> writes the feedforward terms \<open>0, \<dots>, T - 2\<close> and no gain.
\<close>

theorem strategy_shapes:
  assumes "Solve llt qr s linearization quadraticization x0 = Inr (strats, s')"
    and "workspace_ok s" and "solver_shape llt" and "solver_shape qr" and "cols x0 = 1"
    and "\<forall>k<num_time_steps s - 1. \<forall>i<NumPlayers s.
           cols (hess (own_control (quadraticization ! k) i)) = UDim s i"
  shows "length strats = NumPlayers s
       \<and> (\<forall>i<NumPlayers s.
            length (alphas (strats ! i)) = num_time_steps s - 1
          \<and> (\<forall>k<num_time_steps s - 1. has_shape (UDim s i) 1 (alphas (strats ! i) ! k))
          \<and> length (Ps (strats ! i)) = num_time_steps s - 1
          \<and> (\<forall>k<num_time_steps s - 1. Ps (strats ! i) ! k = Zero (UDim s i) (XDim s)))"
proof -
  note St = Solve_strategies[OF assms(1)]
  have "has_shape (UDim s i) 1 (alphas (strats ! i) ! k)"
    if i: "i < NumPlayers s" and k: "k < num_time_steps s - 1" for i k
  proof -
    have T: "0 < num_time_steps s" "k + 1 < num_time_steps s" using k by simp_all
    note B = Solve_backward[OF assms(1,2) T(1)]
    have d: "NumPlayers s' = NumPlayers s" using B(1) by (simp add: dims_def)
    have "warped_Bs s' ! k ! i = llt (hess (own_control (quadraticization ! k) i))
        (transpose_mat (Bs (linearization ! k) ! i))"
      using B(3)[OF T(2)] i d by (simp add: backward_relation_def Let_def)
    then have "rows (warped_Bs s' ! k ! i) = UDim s i"
      using assms(3,6) i k by (simp add: solver_shape_def)
    then show ?thesis
      using St(4)[OF i k d] x_trajectory_cols[OF assms(4)] assms(5)
      by (simp add: has_shape_def alpha_value_dims)
  qed
  then show ?thesis using St(1,2,3) by simp
qed

theorem strategy_shapes_witness:
  "Solve small_solve small_solve G_solver G_lin G_quad G_x0 = Inr (G_strategies, G_final)
   \<and> workspace_ok G_solver \<and> solver_shape small_solve \<and> cols G_x0 = 1
   \<and> cols (hess (own_control (G_quad ! 0) 0)) = UDim G_solver 0
   \<and> cols (hess (own_control (G_quad ! 0) 1)) = UDim G_solver 1
   \<and> length G_strategies = 2
   \<and> length (alphas (G_strategies ! 0)) = 1 \<and> length (alphas (G_strategies ! 1)) = 1
   \<and> has_shape 1 1 (alphas (G_strategies ! 0) ! 0) \<and> has_shape 1 1 (alphas (G_strategies ! 1) ! 0)
   \<and> length (Ps (G_strategies ! 0)) = 1 \<and> length (Ps (G_strategies ! 1)) = 1
   \<and> Ps (G_strategies ! 0) ! 0 = Zero 1 2 \<and> Ps (G_strategies ! 1) ! 0 = Zero 1 2"
proof -
  have x: "cols G_x0 = 1" by (simp add: G_x0_def)
  have c: "cols (hess (own_control (G_quad ! 0) 0)) = UDim G_solver 0"
    "cols (hess (own_control (G_quad ! 0) 1)) = UDim G_solver 1"
    by (simp_all add: G_quad_def G_solver_def fresh_solver_def own_control_def own_cost_def
        scalar_def eval_nat_numeral)
  have n: "num_time_steps G_solver - 1 = 1" "NumPlayers G_solver = 2"
    by (simp_all add: G_solver_def fresh_solver_def)
  have h: "\<forall>k<num_time_steps G_solver - 1. \<forall>i<NumPlayers G_solver.
           cols (hess (own_control (G_quad ! k) i)) = UDim G_solver i"
    unfolding n using c by (simp add: less_Suc_eq eval_nat_numeral)
  note W = strategy_shapes[OF G_run G_ok small_solve_shape small_solve_shape x h, unfolded n]
  show ?thesis
    using G_run G_ok small_solve_shape x c W
    by (simp add: less_Suc_eq eval_nat_numeral G_solver_def fresh_solver_def)
qed

section \<open>What Solve checks and what it reads\<close>

text \<open>
  Claim C6 says that \<^verbatim>\<open>Solve\<close> fails when any of four constraints is violated: the lengths
  of \<open>linearization\<close> and of \<open>quadraticization\<close> are \<open>T\<close>, every \<open>quadraticization[k]\<close> has
  length \<open>N\<close>, and \<open>x0\<close> has dimension \<open>n\<close>. The source has two \<^verbatim>\<open>CHECK_EQ\<close>, for the first two.
  With two costs per time step and one agent the call returns, with the result of S1.
\<close>

theorem input_checks_counterexample:
  "length (S1_quad_wide ! 0) \<noteq> NumPlayers S1_solver
   \<and> Solve small_solve small_solve S1_solver S1_lin S1_quad_wide (scalar 1)
       = Inr ([\<lparr>Ps = [scalar 0], alphas = [scalar (1 / 2)]\<rparr>], S1_final)"
  by (simp add: S1_final_def S1_solver_def S1_lin_def S1_quad_wide_def solve_eval mat_eval Let_def
      eval_nat_numeral)

text \<open>
  Claim C6, amended. \<^verbatim>\<open>Solve\<close> checks up front that \<open>linearization\<close> and \<open>quadraticization\<close>
  have length \<open>T\<close> and fails fatally when either has not.
\<close>

theorem length_checks:
  assumes "length linearization \<noteq> num_time_steps s \<or> length quadraticization \<noteq> num_time_steps s"
  shows "Solve llt qr s linearization quadraticization x0 = Inl CheckFailed"
  using assms by (auto simp: Solve_def)

theorem length_checks_witness:
  "length ([] :: LinearDynamicsApproximation list) \<noteq> num_time_steps S1_solver
   \<and> Solve small_solve small_solve S1_solver [] S1_quad (scalar 1) = Inl CheckFailed"
proof -
  have l: "length ([] :: LinearDynamicsApproximation list) \<noteq> num_time_steps S1_solver"
    by (simp add: S1_solver_def fresh_solver_def)
  then have h: "length ([] :: LinearDynamicsApproximation list) \<noteq> num_time_steps S1_solver
      \<or> length S1_quad \<noteq> num_time_steps S1_solver" ..
  show ?thesis using l length_checks[OF h] by blast
qed

text \<open>
  Claim C9. The result of \<^verbatim>\<open>Solve\<close>, the strategies and the workspace it leaves or the
  failure, is the same for two cost bundles that agree on every state term and on every
  diagonal control entry \<open>control[i]\<close> of agent \<open>i\<close>, however they differ in the cross terms.
\<close>

theorem cross_terms_not_consumed:
  assumes "agree_on_own_terms (NumPlayers s) quadraticization quadraticization'"
  shows "Solve llt qr s linearization quadraticization x0
       = Solve llt qr s linearization quadraticization' x0"
proof (rule Solve_cong)
  show len: "length quadraticization = length quadraticization'"
    using assms by (simp add: agree_on_own_terms_def)
  show "init_terminal quadraticization s = init_terminal quadraticization' s"
    if T: "length quadraticization = num_time_steps s"
  proof (cases "num_time_steps s = 0")
    case True
    then show ?thesis using T len by simp
  next
    case False
    then have "last quadraticization = quadraticization ! (num_time_steps s - 1)"
      "last quadraticization' = quadraticization' ! (num_time_steps s - 1)"
      using T len by (simp_all add: last_nth)
    then show ?thesis
      using assms T False by (intro init_terminal_cong) (simp add: agree_on_own_terms_def)
  qed
  show "hess (state (quadraticization ! kk ! ii)) = hess (state (quadraticization' ! kk ! ii))
      \<and> control (quadraticization ! kk ! ii) ii = control (quadraticization' ! kk ! ii) ii
      \<and> grad (state (quadraticization ! (kk + 1) ! ii))
          = grad (state (quadraticization' ! (kk + 1) ! ii))"
    if "length quadraticization = num_time_steps s" "kk + 1 < num_time_steps s"
      "ii < NumPlayers s" for kk ii
    using assms that by (simp add: agree_on_own_terms_def)
qed

theorem cross_terms_not_consumed_witness:
  "agree_on_own_terms (NumPlayers G_solver) G_quad G_quad_cross
   \<and> control (G_quad ! 0 ! 0) 1 = None
   \<and> control (G_quad_cross ! 0 ! 0) 1 = Some \<lparr>hess = scalar 5, grad = scalar 7\<rparr>
   \<and> Solve small_solve small_solve G_solver G_lin G_quad G_x0
       = Solve small_solve small_solve G_solver G_lin G_quad_cross G_x0
   \<and> Solve small_solve small_solve G_solver G_lin G_quad_cross G_x0 = Inr (G_strategies, G_final)"
proof -
  have h: "agree_on_own_terms (NumPlayers G_solver) G_quad G_quad_cross"
    by (simp add: agree_on_own_terms_def G_solver_def fresh_solver_def G_quad_def
        G_quad_cross_def own_cost_def less_Suc_eq all_conj_distrib eval_nat_numeral)
  have d: "control (G_quad ! 0 ! 0) 1 = None"
    "control (G_quad_cross ! 0 ! 0) 1 = Some \<lparr>hess = scalar 5, grad = scalar 7\<rparr>"
    by (simp_all add: G_quad_def G_quad_cross_def own_cost_def eval_nat_numeral)
  note W = cross_terms_not_consumed[OF h, of small_solve small_solve G_lin G_x0]
  show ?thesis using h d W G_run by simp
qed

text \<open>
  Claim C10. With \<open>T \<ge> 2\<close>, the result of \<^verbatim>\<open>Solve\<close> is the same for two cost bundles that
  differ only in the state gradients of the initial time step.
\<close>

theorem initial_state_gradient_unused:
  assumes "2 \<le> num_time_steps s"
    and "differ_in_initial_state_grad (NumPlayers s) quadraticization quadraticization'"
  shows "Solve llt qr s linearization quadraticization x0
       = Solve llt qr s linearization quadraticization' x0"
proof (rule Solve_cong)
  show len: "length quadraticization = length quadraticization'"
    using assms by (simp add: differ_in_initial_state_grad_def)
  show "init_terminal quadraticization s = init_terminal quadraticization' s"
    if T: "length quadraticization = num_time_steps s"
  proof -
    have "last quadraticization = quadraticization ! (num_time_steps s - 1)"
      "last quadraticization' = quadraticization' ! (num_time_steps s - 1)"
      using T len assms(1) by (simp_all add: last_nth)
    moreover have "quadraticization ! (num_time_steps s - 1) = quadraticization' ! (num_time_steps s - 1)"
      using assms T by (simp add: differ_in_initial_state_grad_def)
    ultimately show ?thesis by (intro init_terminal_cong) simp
  qed
  show "hess (state (quadraticization ! kk ! ii)) = hess (state (quadraticization' ! kk ! ii))
      \<and> control (quadraticization ! kk ! ii) ii = control (quadraticization' ! kk ! ii) ii
      \<and> grad (state (quadraticization ! (kk + 1) ! ii))
          = grad (state (quadraticization' ! (kk + 1) ! ii))"
    if T: "length quadraticization = num_time_steps s" and kk: "kk + 1 < num_time_steps s"
      and ii: "ii < NumPlayers s" for kk ii
  proof -
    have nxt: "quadraticization ! (kk + 1) = quadraticization' ! (kk + 1)"
      using assms T kk by (simp add: differ_in_initial_state_grad_def)
    show ?thesis
    proof (cases "kk = 0")
      case True
      then show ?thesis using assms(2) ii nxt by (simp add: differ_in_initial_state_grad_def)
    next
      case False
      then have "quadraticization ! kk = quadraticization' ! kk"
        using assms T kk by (simp add: differ_in_initial_state_grad_def)
      then show ?thesis using nxt by simp
    qed
  qed
qed

theorem initial_state_gradient_unused_witness:
  "2 \<le> num_time_steps S1_solver
   \<and> differ_in_initial_state_grad (NumPlayers S1_solver) S1_quad S1_quad_grad
   \<and> grad (state (S1_quad ! 0 ! 0)) \<noteq> grad (state (S1_quad_grad ! 0 ! 0))
   \<and> Solve small_solve small_solve S1_solver S1_lin S1_quad (scalar 1)
       = Solve small_solve small_solve S1_solver S1_lin S1_quad_grad (scalar 1)"
proof -
  have T: "2 \<le> num_time_steps S1_solver"
    by (simp add: S1_solver_def fresh_solver_def)
  have h: "differ_in_initial_state_grad (NumPlayers S1_solver) S1_quad S1_quad_grad"
    by (simp add: differ_in_initial_state_grad_def S1_solver_def fresh_solver_def S1_quad_def
        S1_quad_grad_def scalar_cost_def less_Suc_eq all_conj_distrib)
  have d: "grad (state (S1_quad ! 0 ! 0)) \<noteq> grad (state (S1_quad_grad ! 0 ! 0))"
    by (simp add: S1_quad_def S1_quad_grad_def scalar_cost_def scalar_def)
  show ?thesis using T h d initial_state_gradient_unused[OF T h] by simp
qed

section \<open>Dependence on the initial state and symmetry\<close>

text \<open>
  Claim C7 says that the feedforward terms are linear in the initial state:
  \<open>solve(a \<cdot> x\<^sub>1 + b \<cdot> x\<^sub>2) = a \<cdot> solve(x\<^sub>1) + b \<cdot> solve(x\<^sub>2)\<close> for all scalars \<open>a\<close>, \<open>b\<close>. In scenario
  S4 the linear control cost gives \<open>\<alpha> = 1\<close> from \<open>x0 = 0\<close>; with \<open>a = b = 1\<close> and \<open>x\<^sub>1 = x\<^sub>2 = 0\<close>
  the left side is \<open>1\<close> and the right side \<open>2\<close>.
\<close>

theorem linearity_counterexample:
  "well_shaped S1_solver S1_lin S4_quad \<and> workspace_ok S1_solver
   \<and> solves_exactly small_solve (capital_lambdas S4_final ! 0)
   \<and> Solve small_solve small_solve S1_solver S1_lin S4_quad (scalar 0)
       = Inr ([\<lparr>Ps = [scalar 0], alphas = [scalar 1]\<rparr>], S4_final)
   \<and> Solve small_solve small_solve S1_solver S1_lin S4_quad (smult 1 (scalar 0) + smult 1 (scalar 0))
       = Inr ([\<lparr>Ps = [scalar 0], alphas = [scalar 1]\<rparr>], S4_final)
   \<and> scalar 1 \<noteq> smult 1 (scalar 1) + smult 1 (scalar 1)"
proof -
  have sh: "well_shaped S1_solver S1_lin S4_quad"
    by (simp add: well_shaped_def S1_solver_def fresh_solver_def S1_lin_def S4_quad_def
        scalar_lin_def scalar_cost_def own_control_def has_shape_def wf_mat_def scalar_def
        eval_nat_numeral less_Suc_eq all_conj_distrib)
  have e: "solves_exactly small_solve (capital_lambdas S4_final ! 0)"
    by (rule small_solve_exact[where n = 1]) (simp_all add: S4_final_def mat_eval wf_mat_def)
  have r: "Solve small_solve small_solve S1_solver S1_lin S4_quad (scalar 0)
       = Inr ([\<lparr>Ps = [scalar 0], alphas = [scalar 1]\<rparr>], S4_final)
   \<and> Solve small_solve small_solve S1_solver S1_lin S4_quad (smult 1 (scalar 0) + smult 1 (scalar 0))
       = Inr ([\<lparr>Ps = [scalar 0], alphas = [scalar 1]\<rparr>], S4_final)
   \<and> scalar 1 \<noteq> smult 1 (scalar 1) + smult 1 (scalar 1)"
    by (simp add: S4_final_def S1_solver_def S1_lin_def S4_quad_def solve_eval mat_eval Let_def
        eval_nat_numeral smult_def)
  show ?thesis using sh S1_ok e r by simp
qed

text \<open>
  Claim C7, amended. The feedforward terms are affine in the initial state: for inputs of
  the declared dimensions, a QR solve that is exact at every \<open>\<Lambda>\<^sub>k\<close>, initial states \<open>x\<^sub>1\<close>, \<open>x\<^sub>2\<close>
  of dimension \<open>n\<close> and scalars with \<open>a + b = 1\<close>, \<^verbatim>\<open>Solve\<close> returns from \<open>x\<^sub>2\<close> and from
  \<open>a \<cdot> x\<^sub>1 + b \<cdot> x\<^sub>2\<close> whenever it returns from \<open>x\<^sub>1\<close>, with the same workspace, and every
  \<open>\<alpha>\<^sub>i\<^sub>,\<^sub>k\<close> of the third run is \<open>a\<close> times that of the first plus \<open>b\<close> times that of the second.
\<close>

theorem feedforward_affine_in_x0:
  assumes "Solve llt qr s linearization quadraticization x1 = Inr (strats1, s')"
    and "workspace_ok s" and "well_shaped s linearization quadraticization"
    and "has_shape (XDim s) 1 x1" and "has_shape (XDim s) 1 x2"
    and "solver_shape llt"
    and "\<forall>k<num_time_steps s - 1. solves_exactly qr (capital_lambdas s' ! k)"
    and "a + b = 1"
  shows "\<exists>strats2 strats3.
           Solve llt qr s linearization quadraticization x2 = Inr (strats2, s')
         \<and> Solve llt qr s linearization quadraticization (smult a x1 + smult b x2)
             = Inr (strats3, s')
         \<and> (\<forall>i<NumPlayers s. \<forall>k<num_time_steps s - 1.
               alphas (strats3 ! i) ! k
                 = smult a (alphas (strats1 ! i) ! k) + smult b (alphas (strats2 ! i) ! k))"
proof -
  from Solve_any_x0[OF assms(1)] obtain strats2 strats3
    where S2: "Solve llt qr s linearization quadraticization x2 = Inr (strats2, s')"
      and S3: "Solve llt qr s linearization quadraticization (smult a x1 + smult b x2)
             = Inr (strats3, s')"
    by blast
  have "alphas (strats3 ! i) ! k
      = smult a (alphas (strats1 ! i) ! k) + smult b (alphas (strats2 ! i) ! k)"
    if i: "i < NumPlayers s" and k: "k < num_time_steps s - 1" for i k
  proof -
    have T: "0 < num_time_steps s" "k + 1 < num_time_steps s" "k < num_time_steps s"
      using k by simp_all
    note B = Solve_backward[OF assms(1,2) T(1)]
    have d: "NumPlayers s' = NumPlayers s" using B(1) by (simp add: dims_def)
    have Sk: "Suc k < num_time_steps s" using T(2) by simp
    note X = x_trajectory_lin_comb[OF assms(1,2,3,4,5,7,8) Sk, unfolded has_shape_def]
    note M = Ms_shape[OF assms(1,2,3) T(2) i, unfolded has_shape_def]
    have "warped_Bs s' ! k ! i = llt (hess (own_control (quadraticization ! k) i))
        (transpose_mat (Bs (linearization ! k) ! i))"
      using B(3)[OF T(2)] i d by (simp add: backward_relation_def Let_def)
    then have W: "cols (warped_Bs s' ! k ! i) = XDim s"
      using assms(6) well_shapedD(2)[OF assms(3) T(3) i]
      by (simp add: solver_shape_def has_shape_def)
    have "alpha_value s' k i (x_trajectory qr linearization s' (smult a x1 + smult b x2) (Suc k))
        = smult a (alpha_value s' k i (x_trajectory qr linearization s' x1 (Suc k)))
          + smult b (alpha_value s' k i (x_trajectory qr linearization s' x2 (Suc k)))"
      unfolding conjunct1[OF X]
      by (rule alpha_value_lin_comb[where M = "Ms s' ! (k + 1) ! i"])
        (use X M W assms(8) in simp_all)
    then show ?thesis
      by (simp add: Solve_strategies(4)[OF assms(1) i k d] Solve_strategies(4)[OF S2 i k d]
          Solve_strategies(4)[OF S3 i k d])
  qed
  then show ?thesis using S2 S3 by blast
qed

theorem feedforward_affine_in_x0_witness:
  "Solve small_solve small_solve H_solver H_lin H_quad (Mat 2 1 [[1], [1]])
     = Inr (H_strategies 2, H_final)
   \<and> workspace_ok H_solver \<and> well_shaped H_solver H_lin H_quad
   \<and> has_shape (XDim H_solver) 1 (Mat 2 1 [[1], [1]])
   \<and> has_shape (XDim H_solver) 1 (Mat 2 1 [[0], [3]])
   \<and> solver_shape small_solve
   \<and> solves_exactly small_solve (capital_lambdas H_final ! 0)
   \<and> (2 :: real) + (- 1) = 1
   \<and> Solve small_solve small_solve H_solver H_lin H_quad (Mat 2 1 [[0], [3]])
       = Inr (H_strategies (7 / 2), H_final)
   \<and> Solve small_solve small_solve H_solver H_lin H_quad
         (smult 2 (Mat 2 1 [[1], [1]]) + smult (- 1) (Mat 2 1 [[0], [3]]))
       = Inr (H_strategies (1 / 2), H_final)
   \<and> alphas (H_strategies (1 / 2) ! 0) ! 0
       = smult 2 (alphas (H_strategies 2 ! 0) ! 0)
           + smult (- 1) (alphas (H_strategies (7 / 2) ! 0) ! 0)"
proof -
  have x: "has_shape (XDim H_solver) 1 (Mat 2 1 [[1], [1]])"
    "has_shape (XDim H_solver) 1 (Mat 2 1 [[0], [3]])"
    by (simp_all add: has_shape_def wf_mat_def H_solver_def fresh_solver_def)
  have n: "num_time_steps H_solver - 1 = 1" "NumPlayers H_solver = 1"
    by (simp_all add: H_solver_def fresh_solver_def)
  have e: "\<forall>k<num_time_steps H_solver - 1. solves_exactly small_solve (capital_lambdas H_final ! k)"
    unfolding n using H_exact(2) by simp
  have ab: "(2 :: real) + (- 1) = 1" by simp
  from feedforward_affine_in_x0[OF H_run1 H_ok H_shaped x small_solve_shape e ab, unfolded n]
  obtain strats2 strats3
    where s2: "Solve small_solve small_solve H_solver H_lin H_quad (Mat 2 1 [[0], [3]])
             = Inr (strats2, H_final)"
      and s3: "Solve small_solve small_solve H_solver H_lin H_quad
             (smult 2 (Mat 2 1 [[1], [1]]) + smult (- 1) (Mat 2 1 [[0], [3]])) = Inr (strats3, H_final)"
      and a: "\<forall>i<1. \<forall>k<1. alphas (strats3 ! i) ! k
                 = smult 2 (alphas (H_strategies 2 ! i) ! k) + smult (- 1) (alphas (strats2 ! i) ! k)"
    by blast
  have "strats2 = H_strategies (7 / 2)" "strats3 = H_strategies (1 / 2)"
    using s2[unfolded H_run2] s3[unfolded H_run3] by simp_all
  with a have "alphas (H_strategies (1 / 2) ! 0) ! 0
       = smult 2 (alphas (H_strategies 2 ! 0) ! 0)
           + smult (- 1) (alphas (H_strategies (7 / 2) ! 0) ! 0)"
    by simp
  then show ?thesis
    using H_run1 H_run2 H_run3 H_ok H_shaped x small_solve_shape H_exact(2) by simp
qed

text \<open>
  Claim C8 says that every \<open>M[k][i]\<close> is symmetric when every \<open>Q\<^sub>i\<^sub>,\<^sub>k\<close> and every \<open>R\<^sub>i\<^sub>i\<^sub>,\<^sub>k\<close> is, also
  for two or more agents. In the game of two agents above all of them are symmetric, both
  solvers are exact, and \<open>M[0][1] = [[3/2, -1/2], [0, 0]]\<close>.
\<close>

theorem value_hessian_symmetry_counterexample:
  "Solve small_solve small_solve G_solver G_lin G_quad G_x0 = Inr (G_strategies, G_final)
   \<and> workspace_ok G_solver \<and> well_shaped G_solver G_lin G_quad \<and> NumPlayers G_solver = 2
   \<and> symmetric (hess (state (G_quad ! 0 ! 0))) \<and> symmetric (hess (state (G_quad ! 0 ! 1)))
   \<and> symmetric (hess (state (G_quad ! 1 ! 0))) \<and> symmetric (hess (state (G_quad ! 1 ! 1)))
   \<and> symmetric (hess (own_control (G_quad ! 0) 0)) \<and> symmetric (hess (own_control (G_quad ! 0) 1))
   \<and> solves_exactly small_solve (hess (own_control (G_quad ! 0) 0))
   \<and> solves_exactly small_solve (hess (own_control (G_quad ! 0) 1))
   \<and> solves_exactly small_solve (capital_lambdas G_final ! 0)
   \<and> Ms G_final ! 0 ! 1 = Mat 2 2 [[3 / 2, - (1 / 2)], [0, 0]]
   \<and> \<not> symmetric (Ms G_final ! 0 ! 1)"
proof -
  have n: "NumPlayers G_solver = 2" by (simp add: G_solver_def fresh_solver_def)
  have sh: "well_shaped G_solver G_lin G_quad"
    by (simp add: well_shaped_def G_solver_def fresh_solver_def G_lin_def G_quad_def own_cost_def
      own_control_def has_shape_def wf_mat_def scalar_def eval_nat_numeral less_Suc_eq
      all_conj_distrib mat_eval)
  have Q: "symmetric (hess (state (G_quad ! 0 ! 0)))" "symmetric (hess (state (G_quad ! 0 ! 1)))"
    "symmetric (hess (state (G_quad ! 1 ! 0)))" "symmetric (hess (state (G_quad ! 1 ! 1)))"
    by (simp_all add: G_quad_def own_cost_def symmetric_def mat_eval eval_nat_numeral)
  have R: "hess (own_control (G_quad ! 0) 0) = scalar 1" "hess (own_control (G_quad ! 0) 1) = scalar 1"
    by (simp_all add: G_quad_def own_cost_def own_control_def eval_nat_numeral)
  have Rs: "symmetric (scalar 1)" by (simp add: symmetric_def mat_eval)
  have e: "solves_exactly small_solve (capital_lambdas G_final ! 0)"
    by (rule small_solve_exact[where n = 2])
      (simp_all add: G_final_def mat_eval wf_mat_def eval_nat_numeral)
  have v: "Ms G_final ! 0 ! 1 = Mat 2 2 [[3 / 2, - (1 / 2)], [0, 0]]"
    by (simp add: G_final_def)
  have ns: "\<not> symmetric (Mat 2 2 [[3 / 2, - (1 / 2)], [0, 0]])"
    by (simp add: symmetric_def mat_eval eval_nat_numeral)
  show ?thesis
    using G_run G_ok sh n Q R Rs H_exact(1) e v ns by simp
qed

text \<open>
  Claim C8, amended. For a single agent (\<open>N = 1\<close>), inputs of the declared dimensions with
  symmetric \<open>Q\<^sub>k\<close> and \<open>R\<^sub>k\<close>, and solvers that are exact at every \<open>R\<^sub>k\<close> and every \<open>\<Lambda>\<^sub>k\<close>, every
  value Hessian \<open>M[k][0]\<close> the backward pass produces is symmetric.
\<close>

theorem value_hessian_symmetric_single_agent:
  assumes "Solve llt qr s linearization quadraticization x0 = Inr (strats, s')"
    and "workspace_ok s" and "well_shaped s linearization quadraticization"
    and "NumPlayers s = 1"
    and "\<forall>k<num_time_steps s. symmetric (hess (state (quadraticization ! k ! 0)))"
    and "\<forall>k<num_time_steps s - 1. symmetric (hess (own_control (quadraticization ! k) 0))"
    and "\<forall>k<num_time_steps s - 1. solves_exactly llt (hess (own_control (quadraticization ! k) 0))"
    and "\<forall>k<num_time_steps s - 1. solves_exactly qr (capital_lambdas s' ! k)"
    and "k < num_time_steps s"
  shows "symmetric (Ms s' ! k ! 0)"
proof -
  have T: "0 < num_time_steps s" using assms(9) by simp
  have i: "0 < NumPlayers s" using assms(4) by simp
  note B = Solve_backward[OF assms(1,2) T]
  have d: "NumPlayers s' = 1" "XDim s' = XDim s" using B(1) assms(4) by (simp_all add: dims_def)
  have "k + e + 1 = num_time_steps s \<Longrightarrow> symmetric (Ms s' ! k ! 0)" for e
  proof (induction e arbitrary: k)
    case 0
    then have "k = num_time_steps s - 1" "k < num_time_steps s" by simp_all
    then show ?case using B(4)[OF i] assms(5) by simp
  next
    case (Suc e)
    then have k: "k + 1 < num_time_steps s" "k < num_time_steps s" "k < num_time_steps s - 1"
      by simp_all
    have IH: "symmetric (Ms s' ! (k + 1) ! 0)" using Suc.IH[of "k + 1"] Suc.prems by simp
    define R where "R = hess (own_control (quadraticization ! k) 0)"
    define Bm where "Bm = Bs (linearization ! k) ! 0"
    define A where "A = Amat (linearization ! k)"
    define M' where "M' = Ms s' ! (k + 1) ! 0"
    define W where "W = llt R (transpose_mat Bm)"
    define L where "L = Identity (XDim s) (XDim s) + Bm * W * M'"
    from B(3)[OF k(1)]
    have w: "warped_Bs s' ! k ! 0 = W"
      and l: "capital_lambdas s' ! k = L"
      and m: "Ms s' ! k ! 0 = hess (state (quadraticization ! k ! 0)) + transpose_mat A * M' * qr L A"
      unfolding backward_relation_def Let_def d
      by (simp_all add: R_def Bm_def A_def M'_def W_def L_def)
    note sh = well_shapedD[OF assms(3) k(2)]
    have R: "symmetric R" "has_shape (UDim s 0) (UDim s 0) R" "solves_exactly llt R"
      using assms(6,7) k(3) sh(5)[OF i k(1)] by (simp_all add: R_def)
    have Bsh: "has_shape (XDim s) (UDim s 0) Bm" using sh(2)[OF i] by (simp add: Bm_def)
    have Ash: "has_shape (XDim s) (XDim s) A" using sh(1) by (simp add: A_def)
    have Msh: "has_shape (XDim s) (XDim s) M'"
      using Ms_shape[OF assms(1,2,3) k(1) i] by (simp add: M'_def)
    have exL: "solves_exactly qr L" using assms(8)[rule_format, OF k(3)] l by simp
    note r = R(2)[unfolded has_shape_def] and b = Bsh[unfolded has_shape_def]
      and a = Ash[unfolded has_shape_def]
    have Wsh: "has_shape (UDim s 0) (XDim s) W" and RW: "R * W = transpose_mat Bm"
      using solves_exactlyD(1,2)[OF R(3), of "transpose_mat Bm"] r b by (simp_all add: W_def)
    have Ld: "rows L = XDim s" "cols L = XDim s" by (simp_all add: L_def)
    have Xsh: "has_shape (XDim s) (XDim s) (qr L A)" and LX: "L * qr L A = A"
      using solves_exactlyD(1,2)[OF exL, of A] a Ld by simp_all
    have "symmetric (hess (state (quadraticization ! k ! 0)) + transpose_mat A * M' * qr L A)"
    proof (rule riccati_symmetric[where R = R and B = Bm and W = W])
      show "symmetric (hess (state (quadraticization ! k ! 0)))" using assms(5) k(2) by simp
      show "has_shape (XDim s) (XDim s) (hess (state (quadraticization ! k ! 0)))"
        using sh(3)[OF i] .
      show "symmetric M'" using IH by (simp add: M'_def)
      show "(Identity (XDim s) (XDim s) + Bm * W * M') * qr L A = A" using LX by (simp add: L_def)
    qed (rule Msh R(1) R(2) Bsh Wsh RW Xsh)+
    then show ?case by (simp add: m)
  qed
  from this[of "num_time_steps s - 1 - k"] assms(9) show ?thesis by simp
qed

theorem value_hessian_symmetric_single_agent_witness:
  "Solve small_solve small_solve H_solver H_lin H_quad (Mat 2 1 [[1], [1]])
     = Inr (H_strategies 2, H_final)
   \<and> workspace_ok H_solver \<and> well_shaped H_solver H_lin H_quad \<and> NumPlayers H_solver = 1
   \<and> symmetric (hess (state (H_quad ! 0 ! 0))) \<and> symmetric (hess (state (H_quad ! 1 ! 0)))
   \<and> symmetric (hess (own_control (H_quad ! 0) 0))
   \<and> solves_exactly small_solve (hess (own_control (H_quad ! 0) 0))
   \<and> solves_exactly small_solve (capital_lambdas H_final ! 0)
   \<and> symmetric (Ms H_final ! 0 ! 0) \<and> symmetric (Ms H_final ! 1 ! 0)
   \<and> Ms H_final ! 0 ! 0 = Mat 2 2 [[7 / 2, 3], [3, 4]]"
proof -
  have n: "num_time_steps H_solver = 2" "NumPlayers H_solver = 1"
    by (simp_all add: H_solver_def fresh_solver_def)
  have Q: "symmetric (hess (state (H_quad ! 0 ! 0)))" "symmetric (hess (state (H_quad ! 1 ! 0)))"
    by (simp_all add: H_quad_def own_cost_def symmetric_def mat_eval eval_nat_numeral)
  have R: "hess (own_control (H_quad ! 0) 0) = scalar 1"
    by (simp add: H_quad_def own_cost_def own_control_def eval_nat_numeral)
  have Rs: "symmetric (hess (own_control (H_quad ! 0) 0))"
    by (simp add: R symmetric_def mat_eval)
  have h5: "\<forall>k<num_time_steps H_solver. symmetric (hess (state (H_quad ! k ! 0)))"
    unfolding n using Q by (simp add: less_Suc_eq eval_nat_numeral)
  have h6: "\<forall>k<num_time_steps H_solver - 1. symmetric (hess (own_control (H_quad ! k) 0))"
    unfolding n using Rs by simp
  have h7: "\<forall>k<num_time_steps H_solver - 1.
      solves_exactly small_solve (hess (own_control (H_quad ! k) 0))"
    unfolding n using H_exact(1) R by simp
  have h8: "\<forall>k<num_time_steps H_solver - 1. solves_exactly small_solve (capital_lambdas H_final ! k)"
    unfolding n using H_exact(2) by simp
  have k: "0 < num_time_steps H_solver" "1 < num_time_steps H_solver" by (simp_all add: n)
  note W0 = value_hessian_symmetric_single_agent[OF H_run1 H_ok H_shaped n(2) h5 h6 h7 h8 k(1)]
  note W1 = value_hessian_symmetric_single_agent[OF H_run1 H_ok H_shaped n(2) h5 h6 h7 h8 k(2)]
  have v: "Ms H_final ! 0 ! 0 = Mat 2 2 [[7 / 2, 3], [3, 4]]" by (simp add: H_final_def)
  show ?thesis
    using H_run1 H_ok H_shaped n(2) Q Rs H_exact R W0 W1 v by simp
qed

end
